theory Spec2Isabelle
  imports Main "HOL-Library.Word"
begin

section \<open>Virtual-disk extent builder (diskvm/vm/base.py)\<close>

text \<open>
  Paths are strings. What \<open>Path.is_file()\<close> and \<open>Path.is_block_device()\<close> answer is a
  property of the host file system, which the model takes as a parameter \<open>fs\<close>.
\<close>

type_synonym path = string

datatype file_kind = RegularFile | BlockDevice | OtherKind

definition is_file :: "(path \<Rightarrow> file_kind) \<Rightarrow> path \<Rightarrow> bool" where
  "is_file fs f = (fs f = RegularFile)"

definition is_block_device :: "(path \<Rightarrow> file_kind) \<Rightarrow> path \<Rightarrow> bool" where
  "is_block_device fs f = (fs f = BlockDevice)"

text \<open>
  The dataclass \<open>VirtualDiskPart\<close>. Python integers are unbounded, hence \<open>int\<close>.
  The field \<open>length\<close> is called \<open>length_p\<close> here.
\<close>

record VirtualDiskPart =
  source_file :: "path option"
  length_p :: int
  source_offset :: int
  target_offset :: int

text \<open>
  The exceptions \<open>add_part\<close> can end in: the \<open>InvalidDiskPartError\<close> it raises itself,
  the \<open>AttributeError\<close> of calling \<open>is_file\<close> on \<open>None\<close>, and the \<open>ZeroDivisionError\<close>
  of \<open>%\<close> with a zero sector size.
\<close>

datatype error = InvalidDiskPartError | AttributeError | ZeroDivisionError

text \<open>The two checks at the head of \<open>add_part\<close>, in the order of the source.\<close>

definition check_part :: "(path \<Rightarrow> file_kind) \<Rightarrow> int \<Rightarrow> VirtualDiskPart \<Rightarrow> error option" where
  "check_part fs sector_size part =
     (case source_file part of
        None \<Rightarrow> Some AttributeError
      | Some f \<Rightarrow>
          if \<not> is_file fs f \<and> \<not> is_block_device fs f then Some InvalidDiskPartError
          else if sector_size = 0 then Some ZeroDivisionError
          else if target_offset part mod sector_size \<noteq> 0
                  \<or> (target_offset part + length_p part) mod sector_size \<noteq> 0
               then Some InvalidDiskPartError
          else None)"

text \<open>
  The merge loop \<open>for p in list(self.disk_parts)\<close>. The loop walks a snapshot of the list
  while it mutates the list itself. The state of the model is the part of
  \<open>self.disk_parts\<close> already visited (\<open>done\<close>) and the parts appended by the split case
  (\<open>app\<close>); the parts still to visit are the argument list, so that at every moment
  \<open>self.disk_parts\<close> is \<open>done @ todo @ app\<close>. \<open>list.remove(p)\<close> removes the first
  element equal to \<open>p\<close>, which is \<open>p\<close> itself or an equal element visited before.
\<close>

fun merge_parts ::
  "VirtualDiskPart \<Rightarrow> VirtualDiskPart list \<Rightarrow> VirtualDiskPart list \<Rightarrow> VirtualDiskPart list
     \<Rightarrow> VirtualDiskPart list \<times> VirtualDiskPart list" where
  "merge_parts part done app [] = (done, app)"
| "merge_parts part done app (p # todo) =
     (if (target_offset p < target_offset part
            \<and> target_offset p + length_p p \<le> target_offset part)
         \<or> target_offset p \<ge> target_offset part + length_p part
      then merge_parts part (done @ [p]) app todo
      else if target_offset p \<ge> target_offset part
              \<and> target_offset p + length_p p \<le> target_offset part + length_p part
      then merge_parts part (remove1 p (done @ [p])) app todo
      else if target_offset p < target_offset part
              \<and> target_offset part < target_offset p + length_p p
              \<and> target_offset p + length_p p \<le> target_offset part + length_p part
      then (let overlap_len = (target_offset p + length_p p) - target_offset part
            in merge_parts part (done @ [p\<lparr>length_p := length_p p - overlap_len\<rparr>]) app todo)
      else if target_offset part < target_offset p
              \<and> target_offset p < target_offset part + length_p part
              \<and> target_offset part + length_p part < target_offset p + length_p p
      then (let overlap_len = (target_offset p + length_p p)
                                - (target_offset part + length_p part)
            in merge_parts part
                 (done @ [p\<lparr>target_offset := target_offset p + overlap_len,
                            source_offset := source_offset p + overlap_len,
                            length_p := length_p p - overlap_len\<rparr>]) app todo)
      else if target_offset p < target_offset part
              \<and> target_offset p + length_p p > target_offset part + length_p part
      then (let p' = p\<lparr>length_p := target_offset part - target_offset p\<rparr>;
                p2 = p\<lparr>length_p := (target_offset p + length_p p)
                                     - (target_offset part + length_p part),
                       target_offset := target_offset part + length_p part,
                       source_offset := source_offset p + (length_p p' + length_p part)\<rparr>
            in merge_parts part (done @ [p']) (app @ [p2]) todo)
      else merge_parts part (done @ [p]) app todo)"

text \<open>
  \<open>add_part\<close>: the checks, the merge loop, the append of the new part and the stable
  sort by \<open>target_offset\<close>. The result is the new \<open>disk_parts\<close>, or the exception.
\<close>

definition add_part ::
  "(path \<Rightarrow> file_kind) \<Rightarrow> int \<Rightarrow> VirtualDiskPart \<Rightarrow> VirtualDiskPart list
     \<Rightarrow> error + VirtualDiskPart list" where
  "add_part fs sector_size part disk_parts =
     (case check_part fs sector_size part of
        Some e \<Rightarrow> Inl e
      | None \<Rightarrow>
          (case merge_parts part [] [] disk_parts of
             (done, app) \<Rightarrow> Inr (sort_key target_offset (done @ app @ [part]))))"

text \<open>A sequence of \<open>add_part\<close> calls on one builder; the first exception ends it.\<close>

fun add_parts ::
  "(path \<Rightarrow> file_kind) \<Rightarrow> int \<Rightarrow> VirtualDiskPart list \<Rightarrow> VirtualDiskPart list
     \<Rightarrow> error + VirtualDiskPart list" where
  "add_parts fs sector_size disk_parts [] = Inr disk_parts"
| "add_parts fs sector_size disk_parts (part # parts) =
     (case add_part fs sector_size part disk_parts of
        Inl e \<Rightarrow> Inl e
      | Inr disk_parts' \<Rightarrow> add_parts fs sector_size disk_parts' parts)"

text \<open>The half-open target range of an extent, and the three parts of the invariant.\<close>

definition target_end :: "VirtualDiskPart \<Rightarrow> int" where
  "target_end p = target_offset p + length_p p"

definition overlapping :: "VirtualDiskPart \<Rightarrow> VirtualDiskPart \<Rightarrow> bool" where
  "overlapping p q =
     (max (target_offset p) (target_offset q) < min (target_end p) (target_end q))"

fun non_overlapping :: "VirtualDiskPart list \<Rightarrow> bool" where
  "non_overlapping [] = True"
| "non_overlapping (p # ps) = (list_all (\<lambda>q. \<not> overlapping p q) ps \<and> non_overlapping ps)"

definition sector_aligned :: "int \<Rightarrow> VirtualDiskPart list \<Rightarrow> bool" where
  "sector_aligned sector_size ps =
     list_all (\<lambda>p. target_offset p mod sector_size = 0 \<and> target_end p mod sector_size = 0) ps"

definition extent_invariant :: "int \<Rightarrow> VirtualDiskPart list \<Rightarrow> bool" where
  "extent_invariant sector_size ps =
     (sorted (map target_offset ps) \<and> non_overlapping ps \<and> sector_aligned sector_size ps)"

text \<open>
  The byte map an extent list denotes: the source of the byte at a target offset is read
  from the first extent whose half-open target range holds the offset; an offset that no
  extent holds, or one held by an extent without source file, is zero fill.
\<close>

datatype byte_source = ZeroFill | FromFile path int

definition covers :: "int \<Rightarrow> VirtualDiskPart \<Rightarrow> bool" where
  "covers x p = (target_offset p \<le> x \<and> x < target_end p)"

definition byte_map :: "VirtualDiskPart list \<Rightarrow> int \<Rightarrow> byte_source" where
  "byte_map ps x =
     (case find (covers x) ps of
        None \<Rightarrow> ZeroFill
      | Some p \<Rightarrow>
          (case source_file p of
             None \<Rightarrow> ZeroFill
           | Some f \<Rightarrow> FromFile f (source_offset p + (x - target_offset p))))"

text \<open>
  An extent the checks of \<open>add_part\<close> accept and that has a positive length, and a set of
  extents no two of which overlap.
\<close>

definition valid_part :: "(path \<Rightarrow> file_kind) \<Rightarrow> int \<Rightarrow> VirtualDiskPart \<Rightarrow> bool" where
  "valid_part fs sector_size p =
     ((case source_file p of None \<Rightarrow> False | Some f \<Rightarrow> is_file fs f \<or> is_block_device fs f)
      \<and> target_offset p mod sector_size = 0
      \<and> (target_offset p + length_p p) mod sector_size = 0
      \<and> 0 < length_p p)"

definition pairwise_disjoint :: "VirtualDiskPart set \<Rightarrow> bool" where
  "pairwise_disjoint S = (\<forall>p\<in>S. \<forall>q\<in>S. p \<noteq> q \<longrightarrow> \<not> overlapping p q)"

text \<open>
  The source of the byte at a target offset that an extent holds; the one case the merge
  loop of \<open>add_part\<close> gets wrong (the new extent \<open>part\<close> covers the head of an extent \<open>p\<close>
  already present, from the start of \<open>p\<close> on, but not its tail: the fourth branch and the
  case no branch takes); two extents that name the same source bytes wherever their
  target ranges overlap; and a run of \<open>add_part\<close> calls that never meets the wrong case.
\<close>

definition src_at :: "VirtualDiskPart \<Rightarrow> int \<Rightarrow> byte_source" where
  "src_at p x =
     (case source_file p of
        None \<Rightarrow> ZeroFill
      | Some f \<Rightarrow> FromFile f (source_offset p + (x - target_offset p)))"

definition slip_case :: "VirtualDiskPart \<Rightarrow> VirtualDiskPart \<Rightarrow> bool" where
  "slip_case part p =
     (target_offset part \<le> target_offset p \<and> target_offset p < target_end part
      \<and> target_end part < target_end p)"

definition agree :: "VirtualDiskPart \<Rightarrow> VirtualDiskPart \<Rightarrow> bool" where
  "agree p q =
     (if overlapping p q
      then source_file p = source_file q
           \<and> (source_file p = None
                \<or> source_offset p - target_offset p = source_offset q - target_offset q)
      else True)"

fun slip_free ::
  "(path \<Rightarrow> file_kind) \<Rightarrow> int \<Rightarrow> VirtualDiskPart list \<Rightarrow> VirtualDiskPart list \<Rightarrow> bool" where
  "slip_free fs sector_size disk_parts [] = True"
| "slip_free fs sector_size disk_parts (part # parts) =
     (list_all (\<lambda>p. \<not> slip_case part p) disk_parts
      \<and> (case add_part fs sector_size part disk_parts of
            Inl e \<Rightarrow> True
          | Inr disk_parts' \<Rightarrow> slip_free fs sector_size disk_parts' parts))"

text \<open>An extent whose target range lies within that of another.\<close>

definition within :: "VirtualDiskPart \<Rightarrow> VirtualDiskPart \<Rightarrow> bool" where
  "within q p = (target_offset p \<le> target_offset q \<and> target_end q \<le> target_end p)"

text \<open>What one step of the merge loop leaves of an extent \<open>p\<close>, in place and appended.\<close>

definition pieces :: "VirtualDiskPart \<Rightarrow> VirtualDiskPart \<Rightarrow> VirtualDiskPart list" where
  "pieces part p = (case merge_parts part [] [] [p] of (done, app) \<Rightarrow> done @ app)"

text \<open>The invariant of the extent list: positive lengths, no two extents overlap.\<close>

definition disjoint_extents :: "VirtualDiskPart list \<Rightarrow> bool" where
  "disjoint_extents ps = (pairwise_disjoint (set ps) \<and> (\<forall>p\<in>set ps. 0 < length_p p))"

text \<open>A host on which every path is a regular file, for the concrete runs below.\<close>

definition all_files :: "path \<Rightarrow> file_kind" where
  "all_files f = RegularFile"

section \<open>Plugin host (diskvm/plugins/base.py)\<close>

text \<open>
  \<open>VolumeInfo\<close> and \<open>DiskInfo\<close> objects are mutable and shared, so a volume or a disk is
  the address of its object.
\<close>

type_synonym vol = nat
type_synonym disk = nat

text \<open>The eleven hooks of \<open>PluginSpec\<close>, and the keyword arguments a hook is called with.\<close>

datatype hook_name =
    mounted_disk | mounted_volume | mount | unmount_filesystem | unmount_volume
  | mounted_filesystem | before_create_disk | before_create_vm
  | modify_disk | modify_volume | modify_filesystem

datatype hook_arg = DiskArg disk | VolumeArg vol | BuilderArg disk | NoArg

text \<open>
  What a hook returns: \<open>None\<close>, a bool (the unmount hooks), a path, a volume or a list of
  volumes (the mount hook). Python's truth value of each: \<open>None\<close> and the empty list are
  false, a \<open>Path\<close> and a \<open>VolumeInfo\<close> always true.
\<close>

datatype py_value = PyNone | PyBool bool | PyPath path | PyVolume vol | PyVolumes "vol list"

fun truthy :: "py_value \<Rightarrow> bool" where
  "truthy PyNone = False"
| "truthy (PyBool b) = b"
| "truthy (PyPath p) = True"
| "truthy (PyVolume v) = True"
| "truthy (PyVolumes vs) = (vs \<noteq> [])"

text \<open>
  The exceptions the runner tells apart: \<open>DiskVmError\<close> (and its subclasses), which the
  teardown catches, any other exception, and the \<open>RecursionError\<close> of \<open>volume_depth\<close> on
  parent links that never end.
\<close>

datatype exn = DiskVmError | OtherException | RecursionError

text \<open>
  A plugin is arbitrary code: each hook reads and changes the world \<open>'w\<close> (the objects, the
  host and the plugin's own state) and returns a value or raises. Every call the
  dispatcher makes is recorded: the position of the plugin in \<open>all_plugins\<close>, the hook,
  its argument and what came back.
\<close>

type_synonym 'w plugin = "hook_name \<Rightarrow> hook_arg \<Rightarrow> 'w \<Rightarrow> (exn + py_value) \<times> 'w"

datatype event = Call (call_index: nat) (call_hook: hook_name) (call_arg: hook_arg)
  (call_result: "exn + py_value")

record 'w PluginManager =
  plugins :: "'w plugin list"
  fallback_plugins :: "'w plugin list"

definition all_plugins :: "'w PluginManager \<Rightarrow> 'w plugin list" where
  "all_plugins pm = plugins pm @ fallback_plugins pm"

text \<open>
  \<open>dispatch_all\<close>: every plugin's hook in order; an exception ends the loop. Every plugin
  inherits all hooks from \<open>PluginSpec\<close>, so \<open>getattr\<close> always finds a bound method, which
  is true.
\<close>

fun dispatch_all_from ::
  "nat \<Rightarrow> 'w plugin list \<Rightarrow> hook_name \<Rightarrow> hook_arg \<Rightarrow> 'w \<Rightarrow> exn option \<times> 'w \<times> event list" where
  "dispatch_all_from i [] name arg w = (None, w, [])"
| "dispatch_all_from i (p # ps) name arg w =
     (case p name arg w of
        (Inl e, w') \<Rightarrow> (Some e, w', [Call i name arg (Inl e)])
      | (Inr res, w') \<Rightarrow>
          (case dispatch_all_from (Suc i) ps name arg w' of
             (r, w'', calls) \<Rightarrow> (r, w'', Call i name arg (Inr res) # calls)))"

definition dispatch_all ::
  "'w PluginManager \<Rightarrow> hook_name \<Rightarrow> hook_arg \<Rightarrow> 'w \<Rightarrow> exn option \<times> 'w \<times> event list" where
  "dispatch_all pm name arg w = dispatch_all_from 0 (all_plugins pm) name arg w"

text \<open>
  \<open>dispatch_until_result\<close>: the loop returns the first result that is true
  (\<open>if res := cb(**kwargs): return res\<close>), and \<open>None\<close> after the last plugin.
\<close>

fun dispatch_until_result_from ::
  "nat \<Rightarrow> 'w plugin list \<Rightarrow> hook_name \<Rightarrow> hook_arg \<Rightarrow> 'w
     \<Rightarrow> (exn + py_value) \<times> 'w \<times> event list" where
  "dispatch_until_result_from i [] name arg w = (Inr PyNone, w, [])"
| "dispatch_until_result_from i (p # ps) name arg w =
     (case p name arg w of
        (Inl e, w') \<Rightarrow> (Inl e, w', [Call i name arg (Inl e)])
      | (Inr res, w') \<Rightarrow>
          if truthy res then (Inr res, w', [Call i name arg (Inr res)])
          else (case dispatch_until_result_from (Suc i) ps name arg w' of
                  (r, w'', calls) \<Rightarrow> (r, w'', Call i name arg (Inr res) # calls)))"

definition dispatch_until_result ::
  "'w PluginManager \<Rightarrow> hook_name \<Rightarrow> hook_arg \<Rightarrow> 'w \<Rightarrow> (exn + py_value) \<times> 'w \<times> event list" where
  "dispatch_until_result pm name arg w =
     dispatch_until_result_from 0 (all_plugins pm) name arg w"

text \<open>A call that returned a false value, and one that returned a value other than \<open>None\<close>.\<close>

definition returned_falsy :: "event \<Rightarrow> bool" where
  "returned_falsy c = (case call_result c of Inl e \<Rightarrow> False | Inr v \<Rightarrow> \<not> truthy v)"

definition returned_null :: "event \<Rightarrow> bool" where
  "returned_null c = (call_result c = Inr PyNone)"

text \<open>
  \<open>calls_of_plugins ps name arg i w calls w'\<close>: the calls are the calls of the hook
  \<open>name\<close> with argument \<open>arg\<close> of the first plugins of \<open>ps\<close>, one call for each in the
  order of the list and none left out, numbered from \<open>i\<close>; the first plugin is called on
  the world \<open>w\<close>, each further one on the world the call before it left, the recorded
  result of each call is what that plugin's hook returned there, and \<open>w'\<close> is the world
  the last call left.
\<close>

fun calls_of_plugins ::
  "'w plugin list \<Rightarrow> hook_name \<Rightarrow> hook_arg \<Rightarrow> nat \<Rightarrow> 'w \<Rightarrow> event list \<Rightarrow> 'w \<Rightarrow> bool" where
  "calls_of_plugins ps name arg i w [] w' = (w' = w)"
| "calls_of_plugins [] name arg i w (c # cs) w' = False"
| "calls_of_plugins (p # ps) name arg i w (c # cs) w' =
     (c = Call i name arg (fst (p name arg w))
      \<and> calls_of_plugins ps name arg (Suc i) (snd (p name arg w)) cs w')"

section \<open>Binary-structure helper (diskvm/structure.py) and the VeraCrypt header\<close>

text \<open>
  A byte string is a list of bytes. The field types \<open>Structure\<close> supports are the four
  unsigned integer types and \<open>bytes\<close> with a \<open>size\<close> in the field's metadata; a field of
  any other type, or a \<open>bytes\<close> field whose size is zero or missing, makes
  \<open>_get_struct_format\<close> raise.
\<close>

type_synonym byte = "8 word"

datatype Endian = LITTLE | BIG

datatype field_type = Uint8 | Uint16 | Uint32 | Uint64 | BytesField nat | OtherType

text \<open>The format characters of the \<open>struct\<close> module the helper emits: B, H, I, Q and \<open>n\<close>s.\<close>

datatype format_char = FmtB | FmtH | FmtI | FmtQ | FmtS nat

datatype struct_exception = UnsupportedType | StructError

fun field_format :: "field_type \<Rightarrow> format_char option" where
  "field_format Uint8 = Some FmtB"
| "field_format Uint16 = Some FmtH"
| "field_format Uint32 = Some FmtI"
| "field_format Uint64 = Some FmtQ"
| "field_format (BytesField n) = (if n \<noteq> 0 then Some (FmtS n) else None)"
| "field_format OtherType = None"

fun get_struct_format :: "field_type list \<Rightarrow> struct_exception + format_char list" where
  "get_struct_format [] = Inr []"
| "get_struct_format (f # fs) =
     (case field_format f of
        None \<Rightarrow> Inl UnsupportedType
      | Some c \<Rightarrow>
          (case get_struct_format fs of
             Inl e \<Rightarrow> Inl e
           | Inr cs \<Rightarrow> Inr (c # cs)))"

text \<open>
  The \<open>struct\<close> module with a byte-order prefix \<open><\<close> or \<open>>\<close>: standard sizes and no
  padding between fields.
\<close>

fun format_size :: "format_char \<Rightarrow> nat" where
  "format_size FmtB = 1"
| "format_size FmtH = 2"
| "format_size FmtI = 4"
| "format_size FmtQ = 8"
| "format_size (FmtS n) = n"

definition calcsize :: "format_char list \<Rightarrow> nat" where
  "calcsize cs = sum_list (map format_size cs)"

text \<open>Unsigned integers of \<open>n\<close> bytes, least significant byte first, and in either order.\<close>

fun from_le :: "byte list \<Rightarrow> int" where
  "from_le [] = 0"
| "from_le (b # bs) = uint b + 256 * from_le bs"

fun to_le :: "nat \<Rightarrow> int \<Rightarrow> byte list" where
  "to_le 0 v = []"
| "to_le (Suc n) v = word_of_int v # to_le n (v div 256)"

definition int_from_bytes :: "Endian \<Rightarrow> byte list \<Rightarrow> int" where
  "int_from_bytes e bs = (case e of LITTLE \<Rightarrow> from_le bs | BIG \<Rightarrow> from_le (rev bs))"

definition int_to_bytes :: "Endian \<Rightarrow> nat \<Rightarrow> int \<Rightarrow> byte list" where
  "int_to_bytes e n v = (case e of LITTLE \<Rightarrow> to_le n v | BIG \<Rightarrow> rev (to_le n v))"

text \<open>A value of a field: a Python integer or a byte string.\<close>

datatype field_value = IntValue int | BytesValue "byte list"

text \<open>
  \<open>struct.unpack\<close>: the data must be exactly as long as the format says; each field is
  read from its own slice.
\<close>

fun unpack_one :: "Endian \<Rightarrow> format_char \<Rightarrow> byte list \<Rightarrow> field_value" where
  "unpack_one e (FmtS n) bs = BytesValue bs"
| "unpack_one e c bs = IntValue (int_from_bytes e bs)"

fun unpack_fields :: "Endian \<Rightarrow> format_char list \<Rightarrow> byte list \<Rightarrow> field_value list" where
  "unpack_fields e [] data = []"
| "unpack_fields e (c # cs) data =
     unpack_one e c (take (format_size c) data)
       # unpack_fields e cs (drop (format_size c) data)"

definition struct_unpack ::
  "Endian \<Rightarrow> format_char list \<Rightarrow> byte list \<Rightarrow> struct_exception + field_value list" where
  "struct_unpack e cs data =
     (if length data \<noteq> calcsize cs then Inl StructError else Inr (unpack_fields e cs data))"

text \<open>
  \<open>struct.pack\<close>: as many values as the format has fields; an integer must fit its field,
  a byte string is cut or padded with zero bytes to the size of its field.
\<close>

fun pack_one :: "Endian \<Rightarrow> format_char \<Rightarrow> field_value \<Rightarrow> struct_exception + byte list" where
  "pack_one e (FmtS n) (BytesValue bs) = Inr (take n bs @ replicate (n - length bs) 0)"
| "pack_one e (FmtS n) (IntValue v) = Inl StructError"
| "pack_one e c (BytesValue bs) = Inl StructError"
| "pack_one e c (IntValue v) =
     (if 0 \<le> v \<and> v < 256 ^ format_size c then Inr (int_to_bytes e (format_size c) v)
      else Inl StructError)"

fun pack_fields ::
  "Endian \<Rightarrow> format_char list \<Rightarrow> field_value list \<Rightarrow> struct_exception + byte list" where
  "pack_fields e [] [] = Inr []"
| "pack_fields e (c # cs) (v # vs) =
     (case pack_one e c v of
        Inl x \<Rightarrow> Inl x
      | Inr bs \<Rightarrow>
          (case pack_fields e cs vs of
             Inl x \<Rightarrow> Inl x
           | Inr rest \<Rightarrow> Inr (bs @ rest)))"
| "pack_fields e cs vs = Inl StructError"

text \<open>
  A subclass of \<open>Structure\<close> is its byte order and its fields, in order; an instance is
  the values of its fields, in the same order (what \<open>dataclasses.astuple\<close> yields and what
  the constructor takes from \<open>unpack\<close>).
\<close>

record Structure =
  endian :: Endian
  dataclass_fields :: "(string \<times> field_type) list"

definition pack :: "Structure \<Rightarrow> field_value list \<Rightarrow> struct_exception + byte list" where
  "pack cls values =
     (case get_struct_format (map snd (dataclass_fields cls)) of
        Inl x \<Rightarrow> Inl x
      | Inr cs \<Rightarrow> pack_fields (endian cls) cs values)"

definition unpack :: "Structure \<Rightarrow> byte list \<Rightarrow> struct_exception + field_value list" where
  "unpack cls data =
     (case get_struct_format (map snd (dataclass_fields cls)) of
        Inl x \<Rightarrow> Inl x
      | Inr cs \<Rightarrow> struct_unpack (endian cls) cs data)"

text \<open>The packed size of a structure, when all its field types are supported.\<close>

definition packed_size :: "Structure \<Rightarrow> nat option" where
  "packed_size cls =
     (case get_struct_format (map snd (dataclass_fields cls)) of
        Inl x \<Rightarrow> None
      | Inr cs \<Rightarrow> Some (calcsize cs))"

text \<open>The class \<open>VeraCryptHeader\<close> of diskvm/plugins/veracrypt.py.\<close>

definition VeraCryptHeader :: Structure where
  "VeraCryptHeader =
     \<lparr>endian = BIG,
      dataclass_fields =
        [(''signature'', BytesField 4),
         (''header_format_version'', Uint16),
         (''min_program_version'', Uint16),
         (''checksum_master_keys'', Uint32),
         (''reserved1'', BytesField 16),
         (''size_hidden_volume'', Uint64),
         (''size_volume'', Uint64),
         (''offset'', Uint64),
         (''size_encrypted'', Uint64),
         (''flags'', Uint32),
         (''sector_size'', Uint32),
         (''reserved2'', BytesField 120),
         (''checksum_header_fields'', Uint32),
         (''master_keys'', BytesField 256)]\<rparr>"

section \<open>Python text and the candidate master keys (main.py)\<close>

text \<open>
  A Python \<open>str\<close> is a sequence of code points, modelled as natural numbers; \<open>str\<close> turns
  a literal of this file into one.
\<close>

type_synonym str = "nat list"

definition str :: "string \<Rightarrow> str" where
  "str s = map of_char s"

text \<open>
  \<open>str.splitlines()\<close>: a line ends at a line boundary (LF, CR, CR LF, VT, FF, FS, GS, RS,
  NEL, LS or PS), the boundaries are dropped, and a boundary at the very end starts no
  further line.
\<close>

definition is_linebreak :: "nat \<Rightarrow> bool" where
  "is_linebreak c = (c \<in> {10, 13, 11, 12, 28, 29, 30, 133, 8232, 8233})"

fun splitlines :: "str \<Rightarrow> str list" where
  "splitlines [] = []"
| "splitlines (c # cs) =
     (if c = 13 \<and> take 1 cs = [10] then [] # splitlines (drop 1 cs)
      else if is_linebreak c then [] # splitlines cs
      else (case splitlines cs of [] \<Rightarrow> [[c]] | l # ls \<Rightarrow> (c # l) # ls))"

text \<open>\<open>s.split(sep)\<close> for a separator of one character, and \<open>sep.join(xs)\<close>.\<close>

fun split :: "nat \<Rightarrow> str \<Rightarrow> str list" where
  "split sep [] = [[]]"
| "split sep (c # cs) =
     (if c = sep then [] # split sep cs
      else (case split sep cs of [] \<Rightarrow> [[c]] | l # ls \<Rightarrow> (c # l) # ls))"

fun join :: "str \<Rightarrow> str list \<Rightarrow> str" where
  "join sep [] = []"
| "join sep [x] = x"
| "join sep (x # y # ys) = x @ sep @ join sep (y # ys)"

text \<open>
  \<open>bytes.fromhex\<close>: two hexadecimal digits for each byte, ASCII whitespace skipped
  between bytes, \<open>ValueError\<close> on anything else.
\<close>

datatype value_error = ValueError

definition isspace :: "nat \<Rightarrow> bool" where
  "isspace c = (c \<in> {9, 10, 11, 12, 13, 32})"

definition digitvalue :: "nat \<Rightarrow> nat option" where
  "digitvalue c =
     (if 48 \<le> c \<and> c \<le> 57 then Some (c - 48)
      else if 97 \<le> c \<and> c \<le> 102 then Some (c - 87)
      else if 65 \<le> c \<and> c \<le> 70 then Some (c - 55)
      else None)"

fun fromhex :: "str \<Rightarrow> value_error + byte list" where
  "fromhex [] = Inr []"
| "fromhex [c] = (if isspace c then Inr [] else Inl ValueError)"
| "fromhex (c # d # cs) =
     (if isspace c then fromhex (d # cs)
      else (case (digitvalue c, digitvalue d) of
              (Some hi, Some lo) \<Rightarrow>
                (case fromhex cs of
                   Inl e \<Rightarrow> Inl e
                 | Inr bs \<Rightarrow> Inr (of_nat (16 * hi + lo) # bs))
            | _ \<Rightarrow> Inl ValueError))"

fun map_fromhex :: "str list \<Rightarrow> value_error + byte list list" where
  "map_fromhex [] = Inr []"
| "map_fromhex (l # ls) =
     (case fromhex l of
        Inl e \<Rightarrow> Inl e
      | Inr k \<Rightarrow> (case map_fromhex ls of Inl e \<Rightarrow> Inl e | Inr ks \<Rightarrow> Inr (k # ks)))"

text \<open>
  \<open>itertools.permutations(pool, 2)\<close>: the ordered pairs of elements at two different
  positions of the pool.
\<close>

definition permutations2 :: "'a list \<Rightarrow> ('a \<times> 'a) list" where
  "permutations2 pool =
     concat (map (\<lambda>i. map (\<lambda>j. (pool ! i, pool ! j))
                          (filter (\<lambda>j. j \<noteq> i) [0..<length pool]))
                 [0..<length pool])"

text \<open>
  The keys of \<open>main\<close>. \<open>master_keys\<close> is a Python set: it holds each key once, and the
  order in which \<open>permutations\<close> reads it is not specified. The model keeps the set as a
  list without repetitions; \<open>xts_combinations\<close> is the set added by the last step.
\<close>

definition xts_combinations :: "byte list list \<Rightarrow> byte list list" where
  "xts_combinations pool =
     map (\<lambda>t. fst t @ snd t)
       (filter (\<lambda>t. length (fst t) = length (snd t)) (permutations2 pool))"

definition supplied_keys :: "byte list list \<Rightarrow> str option \<Rightarrow> value_error + byte list list" where
  "supplied_keys master_key master_keys_file =
     (case master_keys_file of
        None \<Rightarrow> Inr (remdups master_key)
      | Some content \<Rightarrow>
          (case map_fromhex (filter (\<lambda>l. l \<noteq> []) (splitlines content)) of
             Inl e \<Rightarrow> Inl e
           | Inr ks \<Rightarrow> Inr (remdups (master_key @ ks))))"

definition master_keys ::
  "byte list list \<Rightarrow> str option \<Rightarrow> bool \<Rightarrow> value_error + byte list set" where
  "master_keys master_key master_keys_file xts_combine_keys =
     (case supplied_keys master_key master_keys_file of
        Inl e \<Rightarrow> Inl e
      | Inr pool \<Rightarrow>
          Inr (if xts_combine_keys then set pool \<union> set (xts_combinations pool)
               else set pool))"

section \<open>The /etc/shadow reset (diskvm/plugins/password_bypass.py)\<close>

text \<open>
  \<open>crypt.crypt(password, method)\<close> draws a fresh salt on every call, so it is a function
  of a generator state \<open>'r\<close> as well; the model takes it as a parameter. The plugin hashes
  with the method it was constructed with, \<open>METHOD_SHA256\<close> unless the caller names one.
\<close>

datatype crypt_method = METHOD_SHA512 | METHOD_SHA256 | METHOD_BLOWFISH | METHOD_MD5 | METHOD_CRYPT

type_synonym 'r crypt = "str \<Rightarrow> crypt_method \<Rightarrow> 'r \<Rightarrow> str \<times> 'r"

definition NEW_PASSWORD :: str where
  "NEW_PASSWORD = str ''newpwd''"

definition default_hash_method :: crypt_method where
  "default_hash_method = METHOD_SHA256"

definition hash_password :: "'r crypt \<Rightarrow> crypt_method \<Rightarrow> str \<Rightarrow> 'r \<Rightarrow> str \<times> 'r" where
  "hash_password crypt hash_method password r = crypt password hash_method r"

text \<open>
  The loop over the entries: an entry with at least two fields whose second field is
  neither \<open>!\<close> nor \<open>*\<close> gets a new hash as its second field.
\<close>

fun override_entries ::
  "'r crypt \<Rightarrow> crypt_method \<Rightarrow> str list list \<Rightarrow> 'r \<Rightarrow> str list list \<times> 'r" where
  "override_entries crypt hash_method [] r = ([], r)"
| "override_entries crypt hash_method (e # entries) r =
     (if length e \<ge> 2 \<and> e ! 1 \<notin> set [str ''!'', str ''*'']
      then (case hash_password crypt hash_method NEW_PASSWORD r of
              (h, r') \<Rightarrow>
                (case override_entries crypt hash_method entries r' of
                   (es, r'') \<Rightarrow> (e[1 := h] # es, r'')))
      else (case override_entries crypt hash_method entries r of
              (es, r'') \<Rightarrow> (e # es, r'')))"

text \<open>
  \<open>EtcShadowBlankPasswords.modify_filesystem\<close>, as a function of the text of
  \<open>etc/shadow\<close> on the mounted file system (\<open>None\<close> when the file does not exist) that
  returns the text the file holds afterwards.
\<close>

definition shadow_modify_filesystem ::
  "'r crypt \<Rightarrow> crypt_method \<Rightarrow> str option \<Rightarrow> 'r \<Rightarrow> str option \<times> 'r" where
  "shadow_modify_filesystem crypt hash_method etc_shadow r =
     (case etc_shadow of
        None \<Rightarrow> (None, r)
      | Some text \<Rightarrow>
          (case override_entries crypt hash_method (map (split 58) (splitlines text)) r of
             (entries, r') \<Rightarrow> (Some (join (str ''\<newline>'') (map (join (str '':'')) entries)), r')))"

text \<open>What the amended claim says of one line of the file and the line written for it.\<close>

definition line_overridden :: "'r crypt \<Rightarrow> crypt_method \<Rightarrow> str \<Rightarrow> str \<Rightarrow> bool" where
  "line_overridden crypt hash_method old new =
     (let e = split 58 old in
      if 2 \<le> length e \<and> e ! 1 \<noteq> str ''!'' \<and> e ! 1 \<noteq> str ''*''
      then \<exists>h r1 r2. crypt NEW_PASSWORD hash_method r1 = (h, r2)
                      \<and> new = join (str '':'') (e[1 := h])
      else new = old)"

section \<open>Disks, volumes and the mount pipeline (diskvm/data.py, diskvm/utils.py, diskvm/runner.py)\<close>

text \<open>
  The dataclasses \<open>VolumeInfo\<close> and \<open>DiskInfo\<close>. References to other objects are
  addresses. The field \<open>size\<close> is called \<open>size_v\<close>, the parsed partition table
  (\<open>DiskInfo.disk_info\<close>) \<open>partition_info\<close>, the property
  \<open>DiskInfo.sector_size\<close> \<open>disk_sector_size\<close>. The fields the runner never reads
  (\<open>volume_type\<close>, \<open>volume_info\<close>, \<open>additional_info\<close>) belong to the plugins and are
  part of the host state below.
\<close>

record VolumeInfo =
  disk_info :: disk
  flat_mount :: "path option"
  filesystem_mount :: "path option"
  parent :: "vol option"
  offset :: int
  size_v :: int

text \<open>
  What \<open>get_disk_partitions_info\<close> found: a GPT with its LBA size and the first and last
  LBA of each partition, an MBR with its LBA size and the first LBA and the number of
  sectors of each partition, or neither.
\<close>

datatype partitions_info =
    GptTable int "(int \<times> int) list" | MbrTable int "(int \<times> int) list" | NoTable

record DiskInfo =
  readonly :: bool
  flat_mounted_disk :: path
  partition_info :: partitions_info
  volumes :: "vol list"
  keep_mounted :: bool

datatype PartitionScheme = GPT | MBR | UNKNOWN

definition partition_scheme :: "DiskInfo \<Rightarrow> PartitionScheme" where
  "partition_scheme di =
     (case partition_info di of
        GptTable lba_size ps \<Rightarrow> GPT | MbrTable lba_size ps \<Rightarrow> MBR | NoTable \<Rightarrow> UNKNOWN)"

definition disk_sector_size :: "DiskInfo \<Rightarrow> int" where
  "disk_sector_size di =
     (case partition_info di of
        GptTable lba_size ps \<Rightarrow> lba_size | MbrTable lba_size ps \<Rightarrow> lba_size | NoTable \<Rightarrow> 512)"

text \<open>
  The world the runner and the plugins work on: the \<open>DiskInfo\<close> and \<open>VolumeInfo\<close>
  objects by address, the next free addresses, and the host \<open>'h\<close> (mount table, loop
  devices, files, the plugins' own data). The state of a run is the world and the trace
  of the hook calls made so far.
\<close>

record 'h world =
  disks :: "disk \<Rightarrow> DiskInfo"
  vols :: "vol \<Rightarrow> VolumeInfo"
  next_disk :: disk
  next_vol :: vol
  host :: 'h

type_synonym 'h state = "'h world \<times> event list"

text \<open>
  What the runner asks of the host: \<open>Path.exists\<close>, \<open>losetup --find --show\<close> (read-only
  flag, offset, size limit, backing file), \<open>size_blockdevice\<close>, mounting and unmounting a
  virtual disk, removing the directory of its mount point, and parsing a partition
  table.
\<close>

record 'h host_ops =
  path_exists :: "path \<Rightarrow> 'h \<Rightarrow> bool"
  losetup :: "bool \<Rightarrow> int \<Rightarrow> int \<Rightarrow> path \<Rightarrow> 'h \<Rightarrow> (exn + path) \<times> 'h"
  size_blockdevice :: "path \<Rightarrow> 'h \<Rightarrow> exn + int"
  vdisk_mount :: "path \<Rightarrow> bool \<Rightarrow> 'h \<Rightarrow> (exn + path) \<times> 'h"
  vdisk_unmount :: "path \<Rightarrow> 'h \<Rightarrow> exn option \<times> 'h"
  rmdir_parent :: "path \<Rightarrow> 'h \<Rightarrow> exn option \<times> 'h"
  get_disk_partitions_info :: "path \<Rightarrow> 'h \<Rightarrow> exn + partitions_info"

text \<open>The two dispatchers on a state: the calls they make are appended to the trace.\<close>

definition run_dispatch_all ::
  "'h world PluginManager \<Rightarrow> hook_name \<Rightarrow> hook_arg \<Rightarrow> 'h state \<Rightarrow> exn option \<times> 'h state" where
  "run_dispatch_all pm name arg s =
     (case dispatch_all pm name arg (fst s) of
        (r, w', calls) \<Rightarrow> (r, (w', snd s @ calls)))"

definition run_dispatch_until_result ::
  "'h world PluginManager \<Rightarrow> hook_name \<Rightarrow> hook_arg \<Rightarrow> 'h state
     \<Rightarrow> (exn + py_value) \<times> 'h state" where
  "run_dispatch_until_result pm name arg s =
     (case dispatch_until_result pm name arg (fst s) of
        (r, w', calls) \<Rightarrow> (r, (w', snd s @ calls)))"

subsection \<open>groupby (diskvm/utils.py)\<close>

text \<open>
  \<open>sorted(lst, key=key, reverse=reverse)\<close> is stable in both directions: with
  \<open>reverse\<close> the keys fall and elements of equal key keep their order.
  \<open>itertools.groupby\<close> cuts a list into the runs of equal key.
\<close>

definition sorted_py :: "'a list \<Rightarrow> ('a \<Rightarrow> 'k::linorder) \<Rightarrow> bool \<Rightarrow> 'a list" where
  "sorted_py lst key reverse =
     (if reverse then rev (sort_key key (rev lst)) else sort_key key lst)"

function itertools_groupby :: "'a list \<Rightarrow> ('a \<Rightarrow> 'k) \<Rightarrow> ('k \<times> 'a list) list" where
  "itertools_groupby [] key = []"
| "itertools_groupby (x # xs) key =
     (key x, x # takeWhile (\<lambda>y. key y = key x) xs)
       # itertools_groupby (dropWhile (\<lambda>y. key y = key x) xs) key"
  by pat_completeness auto
termination
  by (relation "measure (\<lambda>(xs, key). length xs)")
     (auto simp: length_dropWhile_le less_Suc_eq_le)

definition groupby :: "'a list \<Rightarrow> ('a \<Rightarrow> 'k::linorder) \<Rightarrow> bool \<Rightarrow> ('k \<times> 'a list) list" where
  "groupby lst key reverse = itertools_groupby (sorted_py lst key reverse) key"

subsection \<open>Teardown\<close>

text \<open>
  \<open>volume_depth\<close> follows the parent links. On links that never end the Python recursion
  ends in a \<open>RecursionError\<close>; here the function has no value.
\<close>

partial_function (option) volume_depth :: "(vol \<Rightarrow> VolumeInfo) \<Rightarrow> vol \<Rightarrow> nat option" where
  "volume_depth h v =
     (case parent (h v) of
        None \<Rightarrow> Some 0
      | Some p \<Rightarrow> Option.bind (volume_depth h p) (\<lambda>d. Some (1 + d)))"

definition depth_key :: "(vol \<Rightarrow> VolumeInfo) \<Rightarrow> vol \<Rightarrow> nat" where
  "depth_key h v = (case volume_depth h v of None \<Rightarrow> 0 | Some d \<Rightarrow> d)"

text \<open>
  The two inner loops over the volumes of one depth. A \<open>DiskVmError\<close> of a hook is logged
  and the loop goes on; any other exception leaves the function.
\<close>

fun unmount_filesystems ::
  "'h host_ops \<Rightarrow> 'h world PluginManager \<Rightarrow> vol list \<Rightarrow> 'h state \<Rightarrow> exn option \<times> 'h state" where
  "unmount_filesystems ops pm [] s = (None, s)"
| "unmount_filesystems ops pm (v # vs) s =
     (case filesystem_mount (vols (fst s) v) of
        None \<Rightarrow> unmount_filesystems ops pm vs s
      | Some fm \<Rightarrow>
          if \<not> path_exists ops fm (host (fst s)) then unmount_filesystems ops pm vs s
          else (case run_dispatch_until_result pm unmount_filesystem (VolumeArg v) s of
                  (Inl e, s') \<Rightarrow>
                    if e = DiskVmError then unmount_filesystems ops pm vs s' else (Some e, s')
                | (Inr res, (w', tr')) \<Rightarrow>
                    if truthy res
                    then unmount_filesystems ops pm vs
                           (w'\<lparr>vols := (vols w')(v := (vols w' v)\<lparr>filesystem_mount := None\<rparr>)\<rparr>,
                            tr')
                    else unmount_filesystems ops pm vs (w', tr')))"

fun unmount_volumes ::
  "'h host_ops \<Rightarrow> 'h world PluginManager \<Rightarrow> vol list \<Rightarrow> 'h state \<Rightarrow> exn option \<times> 'h state" where
  "unmount_volumes ops pm [] s = (None, s)"
| "unmount_volumes ops pm (v # vs) s =
     (case flat_mount (vols (fst s) v) of
        None \<Rightarrow> unmount_volumes ops pm vs s
      | Some fm \<Rightarrow>
          if \<not> path_exists ops fm (host (fst s)) then unmount_volumes ops pm vs s
          else (case run_dispatch_until_result pm unmount_volume (VolumeArg v) s of
                  (Inl e, s') \<Rightarrow>
                    if e = DiskVmError then unmount_volumes ops pm vs s' else (Some e, s')
                | (Inr res, (w', tr')) \<Rightarrow>
                    if truthy res
                    then unmount_volumes ops pm vs
                           (w'\<lparr>vols := (vols w')(v := (vols w' v)\<lparr>flat_mount := None\<rparr>)\<rparr>, tr')
                    else unmount_volumes ops pm vs (w', tr')))"

text \<open>The outer loop over the groups, deepest first.\<close>

fun unmount_groups ::
  "'h host_ops \<Rightarrow> 'h world PluginManager \<Rightarrow> (nat \<times> vol list) list \<Rightarrow> 'h state
     \<Rightarrow> exn option \<times> 'h state" where
  "unmount_groups ops pm [] s = (None, s)"
| "unmount_groups ops pm ((depth, vs) # groups) s =
     (case unmount_filesystems ops pm vs s of
        (Some e, s1) \<Rightarrow> (Some e, s1)
      | (None, s1) \<Rightarrow>
          (case unmount_volumes ops pm vs s1 of
             (Some e, s2) \<Rightarrow> (Some e, s2)
           | (None, s2) \<Rightarrow> unmount_groups ops pm groups s2))"

text \<open>
  \<open>unmount_partitions_and_filesystems\<close>: \<open>groupby\<close> computes every depth and builds the
  whole list of groups before the first hook is called.
\<close>

definition unmount_partitions_and_filesystems ::
  "'h host_ops \<Rightarrow> 'h world PluginManager \<Rightarrow> disk \<Rightarrow> 'h state \<Rightarrow> exn option \<times> 'h state" where
  "unmount_partitions_and_filesystems ops pm d s =
     (let h = vols (fst s); vs = volumes (disks (fst s) d) in
      if list_ex (\<lambda>v. volume_depth h v = None) vs then (Some RecursionError, s)
      else unmount_groups ops pm (groupby vs (depth_key h) True) s)"

(*PROOFS*)

section \<open>Properties of the extent builder\<close>

subsection \<open>The list invariant\<close>

text \<open>
  Claim C1 (the list is always sorted, pairwise non-overlapping and sector-aligned after
  successful \<open>add_part\<close> calls on a fresh builder) fails on the code. An extent that
  starts where the new one starts and ends after it matches none of the five branches of
  the merge loop: the second branch needs \<open>p\<close> to end inside the new extent, the fourth
  needs \<open>p\<close> to start strictly after the new one. Both extents stay whole. With sector
  size 512, adding 1024 bytes at target 0 and then 512 bytes at target 0 both succeed and
  leave two extents that overlap on the range from 0 to 512.
\<close>

theorem add_part_same_start_breaks_invariant:
  "add_parts all_files 512 []
     [\<lparr>source_file = Some ''img'', length_p = 1024, source_offset = 0, target_offset = 0\<rparr>,
      \<lparr>source_file = Some ''plain'', length_p = 512, source_offset = 0, target_offset = 0\<rparr>]
   = Inr [\<lparr>source_file = Some ''img'', length_p = 1024, source_offset = 0, target_offset = 0\<rparr>,
          \<lparr>source_file = Some ''plain'', length_p = 512, source_offset = 0, target_offset = 0\<rparr>]
   \<and> \<not> extent_invariant 512
        [\<lparr>source_file = Some ''img'', length_p = 1024, source_offset = 0, target_offset = 0\<rparr>,
         \<lparr>source_file = Some ''plain'', length_p = 512, source_offset = 0, target_offset = 0\<rparr>]"
  by (simp add: add_part_def check_part_def is_file_def all_files_def extent_invariant_def
      overlapping_def target_end_def)

subsection \<open>An extent whose head the new extent covers\<close>

text \<open>
  Claim C2 (an extent \<open>p\<close> whose head overlaps the tail of the new extent is advanced by
  the overlap, the new end minus the start of \<open>p\<close>, and shrunk by the same amount) is what
  the comment drawing and the variable name \<open>overlap_len\<close> of the fourth branch intend,
  but the branch computes the end of \<open>p\<close> minus the end of the new extent, the length of
  what is left of \<open>p\<close>. With \<open>p\<close> of 1536 bytes at target 512 and a new extent of 1536
  bytes at target 0 the overlap is 1024 bytes, so \<open>p\<close> should become 512 bytes at target
  1536 from source offset 1024. The code leaves 1024 bytes at target 1024 from source
  offset 512, which still overlap the new extent.
\<close>

theorem add_part_head_overlap_advances_by_remainder:
  "add_part all_files 512
     \<lparr>source_file = Some ''plain'', length_p = 1536, source_offset = 0, target_offset = 0\<rparr>
     [\<lparr>source_file = Some ''img'', length_p = 1536, source_offset = 0, target_offset = 512\<rparr>]
   = Inr [\<lparr>source_file = Some ''plain'', length_p = 1536, source_offset = 0, target_offset = 0\<rparr>,
          \<lparr>source_file = Some ''img'', length_p = 1024, source_offset = 512,
             target_offset = 1024\<rparr>]"
  by (simp add: add_part_def check_part_def is_file_def all_files_def)

subsection \<open>The checks of add_part\<close>

text \<open>
  Claim C3 (a part without source file, a zero region, is accepted when it is aligned, and
  every failure is an \<open>InvalidDiskPartError\<close>) fails on the code: the first check calls
  \<open>is_file\<close> on the source file before anything else, and on \<open>None\<close> that call raises
  \<open>AttributeError\<close>. So no part without source file is ever accepted, whatever its
  offsets, the sector size and the extents already present.
\<close>

theorem add_part_null_source_attribute_error:
  "add_part fs sector_size (part\<lparr>source_file := None\<rparr>) disk_parts = Inl AttributeError"
  by (simp add: add_part_def check_part_def)

subsection \<open>Insertion order\<close>

lemma check_part_valid:
  "sector_size \<noteq> 0 \<Longrightarrow> valid_part fs sector_size p \<Longrightarrow> check_part fs sector_size p = None"
  by (auto simp: valid_part_def check_part_def split: option.splits)

lemma overlapping_sym: "overlapping p q = overlapping q p"
  by (auto simp: overlapping_def)

lemma pieces_props:
  assumes n: "0 < length_p n" and p: "0 < length_p p" and ns: "\<not> slip_case n p"
  shows "\<forall>q\<in>set (pieces n p). 0 < length_p q \<and> within q p \<and> \<not> overlapping q n"
    and "\<forall>q\<in>set (pieces n p). \<forall>q'\<in>set (pieces n p). q \<noteq> q' \<longrightarrow> \<not> overlapping q q'"
    and "\<forall>q\<in>set (pieces n p). covers x q \<longrightarrow> src_at q x = src_at p x"
    and "(\<exists>q\<in>set (pieces n p). covers x q) \<longleftrightarrow> (covers x p \<and> \<not> covers x n)"
  using assms
  by (auto simp: pieces_def Let_def within_def overlapping_def covers_def src_at_def
      slip_case_def target_end_def split: if_splits option.splits)

lemma merge_parts_step:
  assumes "0 < length_p p" and "\<forall>q\<in>set done. \<not> overlapping q n"
  shows "merge_parts n done app (p # todo)
           = merge_parts n (done @ fst (merge_parts n [] [] [p]))
               (app @ snd (merge_parts n [] [] [p])) todo"
proof -
  have contained: "target_offset n \<le> target_offset p
      \<and> target_offset p + length_p p \<le> target_offset n + length_p n \<Longrightarrow> p \<notin> set done"
  proof
    assume c: "target_offset n \<le> target_offset p
      \<and> target_offset p + length_p p \<le> target_offset n + length_p n" and "p \<in> set done"
    then have "\<not> overlapping p n" using assms(2) by blast
    with c assms(1) show False by (simp add: overlapping_def target_end_def)
  qed
  show ?thesis
    using contained by (simp add: Let_def remove1_append remove1_idem)
qed

lemma merge_parts_pieces:
  assumes n: "0 < length_p n"
  shows "\<forall>q\<in>set done. \<not> overlapping q n \<Longrightarrow>
         \<forall>p\<in>set todo. 0 < length_p p \<and> \<not> slip_case n p \<Longrightarrow>
         merge_parts n done app todo = (done', app') \<Longrightarrow>
           set (done' @ app') = set (done @ app) \<union> (\<Union>p\<in>set todo. set (pieces n p))"
proof (induction todo arbitrary: "done" app)
  case Nil
  then show ?case by auto
next
  case (Cons p todo)
  let ?d = "fst (merge_parts n [] [] [p])" and ?a = "snd (merge_parts n [] [] [p])"
  have pp: "0 < length_p p" "\<not> slip_case n p" using Cons.prems(2) by simp_all
  have pc: "set (pieces n p) = set ?d \<union> set ?a"
    by (simp add: pieces_def case_prod_unfold)
  have step: "merge_parts n (done @ ?d) (app @ ?a) todo = (done', app')"
    using merge_parts_step [OF pp(1) Cons.prems(1)] Cons.prems(3) by simp
  have clear: "\<forall>q\<in>set (done @ ?d). \<not> overlapping q n"
    using Cons.prems(1) pieces_props(1) [OF n pp] pc by auto
  have rest: "\<forall>p\<in>set todo. 0 < length_p p \<and> \<not> slip_case n p" using Cons.prems(2) by simp
  from Cons.IH [OF clear rest step] pc show ?case by auto
qed

lemma overlapping_covers: "covers x p \<Longrightarrow> covers x q \<Longrightarrow> overlapping p q"
  by (auto simp: covers_def overlapping_def)

lemma within_not_overlapping:
  "within q p \<Longrightarrow> within q' p' \<Longrightarrow> \<not> overlapping p p' \<Longrightarrow> \<not> overlapping q q'"
  by (auto simp: within_def overlapping_def)

lemma byte_map_src_at:
  "byte_map ps x = (case find (covers x) ps of None \<Rightarrow> ZeroFill | Some p \<Rightarrow> src_at p x)"
  by (simp add: byte_map_def src_at_def split: option.splits)

lemma byte_map_covered:
  assumes "disjoint_extents ps" "p \<in> set ps" "covers x p"
  shows "byte_map ps x = src_at p x"
proof -
  from assms(2,3) obtain q where q: "find (covers x) ps = Some q"
    by (cases "find (covers x) ps") (auto simp: find_None_iff)
  then have "q \<in> set ps" "covers x q" by (auto simp: find_Some_iff)
  then have "q = p"
    using assms overlapping_covers [of x q p]
    by (auto simp: disjoint_extents_def pairwise_disjoint_def)
  with q show ?thesis by (simp add: byte_map_src_at)
qed

lemma byte_map_uncovered:
  "\<forall>p\<in>set ps. \<not> covers x p \<Longrightarrow> byte_map ps x = ZeroFill"
  by (simp add: byte_map_src_at find_None_iff [THEN iffD2])

lemma add_part_overlay:
  assumes ss: "sector_size \<noteq> 0" and v: "valid_part fs sector_size n"
    and inv: "disjoint_extents ps" and nslip: "\<forall>p\<in>set ps. \<not> slip_case n p"
  shows "\<exists>ps'. add_part fs sector_size n ps = Inr ps' \<and> disjoint_extents ps'
           \<and> (\<forall>x. byte_map ps' x = (if covers x n then src_at n x else byte_map ps x))"
proof -
  have n: "0 < length_p n" using v by (simp add: valid_part_def)
  have pos: "\<forall>p\<in>set ps. 0 < length_p p" using inv by (simp add: disjoint_extents_def)
  obtain d a where m: "merge_parts n [] [] ps = (d, a)" by (cases "merge_parts n [] [] ps")
  let ?ps' = "sort_key target_offset (d @ a @ [n])"
  have res: "add_part fs sector_size n ps = Inr ?ps'"
    using check_part_valid [OF ss v] m by (simp add: add_part_def)
  have "set (d @ a) = set ([] @ []) \<union> (\<Union>p\<in>set ps. set (pieces n p))"
    by (rule merge_parts_pieces [OF n _ _ m]) (use pos nslip in auto)
  then have sets: "set ?ps' = insert n (\<Union>p\<in>set ps. set (pieces n p))" by auto
  have piece: "\<And>q. q \<in> set ?ps' \<Longrightarrow> q \<noteq> n \<Longrightarrow> \<exists>p\<in>set ps. q \<in> set (pieces n p)"
    using sets by auto
  have P1: "\<And>p q. p \<in> set ps \<Longrightarrow> q \<in> set (pieces n p)
      \<Longrightarrow> 0 < length_p q \<and> within q p \<and> \<not> overlapping q n"
    using pieces_props(1) [OF n] pos nslip by blast
  have P2: "\<And>p q q'. p \<in> set ps \<Longrightarrow> q \<in> set (pieces n p) \<Longrightarrow> q' \<in> set (pieces n p)
      \<Longrightarrow> q \<noteq> q' \<Longrightarrow> \<not> overlapping q q'"
    using pieces_props(2) [OF n] pos nslip by blast
  have P3: "\<And>p q x. p \<in> set ps \<Longrightarrow> q \<in> set (pieces n p) \<Longrightarrow> covers x q
      \<Longrightarrow> src_at q x = src_at p x"
    using pieces_props(3) [OF n] pos nslip by blast
  have P4: "\<And>p x. p \<in> set ps
      \<Longrightarrow> (\<exists>q\<in>set (pieces n p). covers x q) \<longleftrightarrow> (covers x p \<and> \<not> covers x n)"
    using pieces_props(4) [OF n] pos nslip by blast
  have pd: "pairwise_disjoint (set ?ps')"
    unfolding pairwise_disjoint_def
  proof (intro ballI impI)
    fix q q' assume q: "q \<in> set ?ps'" and q': "q' \<in> set ?ps'" and ne: "q \<noteq> q'"
    show "\<not> overlapping q q'"
    proof (cases "q = n")
      case True
      then have "q' \<noteq> n" using ne by simp
      from piece [OF q' this] obtain p' where "p' \<in> set ps" "q' \<in> set (pieces n p')" by blast
      then have "\<not> overlapping q' n" using P1 by blast
      then show ?thesis using True overlapping_sym by simp
    next
      case False
      from piece [OF q False] obtain p where p: "p \<in> set ps" "q \<in> set (pieces n p)" by blast
      show ?thesis
      proof (cases "q' = n")
        case True
        then show ?thesis using P1 [OF p] by simp
      next
        case F2: False
        from piece [OF q' F2] obtain p' where p': "p' \<in> set ps" "q' \<in> set (pieces n p')"
          by blast
        show ?thesis
        proof (cases "p = p'")
          case True
          then show ?thesis using P2 [OF p(1) p(2) _ ne] p'(2) by simp
        next
          case F3: False
          then have "\<not> overlapping p p'"
            using inv p(1) p'(1) by (simp add: disjoint_extents_def pairwise_disjoint_def)
          then show ?thesis
            using within_not_overlapping P1 [OF p] P1 [OF p'] by blast
        qed
      qed
    qed
  qed
  have pos': "\<forall>q\<in>set ?ps'. 0 < length_p q"
  proof
    fix q assume q: "q \<in> set ?ps'"
    show "0 < length_p q"
    proof (cases "q = n")
      case True then show ?thesis using n by simp
    next
      case False
      from piece [OF q False] P1 show ?thesis by blast
    qed
  qed
  have inv': "disjoint_extents ?ps'" using pd pos' by (simp add: disjoint_extents_def)
  have bm: "\<forall>x. byte_map ?ps' x = (if covers x n then src_at n x else byte_map ps x)"
  proof
    fix x
    show "byte_map ?ps' x = (if covers x n then src_at n x else byte_map ps x)"
    proof (cases "covers x n")
      case True
      have "n \<in> set ?ps'" using sets by simp
      from byte_map_covered [OF inv' this True] True show ?thesis by simp
    next
      case False
      show ?thesis
      proof (cases "\<exists>p\<in>set ps. covers x p")
        case True
        then obtain p where p: "p \<in> set ps" "covers x p" by blast
        with P4 [OF p(1), of x] False obtain q where q: "q \<in> set (pieces n p)" "covers x q"
          by blast
        have "q \<in> set ?ps'" using sets p(1) q(1) by auto
        from byte_map_covered [OF inv' this q(2)] have "byte_map ?ps' x = src_at q x" .
        also have "\<dots> = src_at p x" using P3 [OF p(1) q] .
        also have "\<dots> = byte_map ps x" using byte_map_covered [OF inv p] by simp
        finally show ?thesis using False by simp
      next
        case F2: False
        have "\<forall>q\<in>set ?ps'. \<not> covers x q"
        proof
          fix q assume q: "q \<in> set ?ps'"
          show "\<not> covers x q"
          proof (cases "q = n")
            case True then show ?thesis using False by simp
          next
            case F3: False
            from piece [OF q F3] obtain p where p: "p \<in> set ps" "q \<in> set (pieces n p)" by blast
            then show ?thesis using P4 [OF p(1), of x] F2 by blast
          qed
        qed
        then have "byte_map ?ps' x = ZeroFill" by (rule byte_map_uncovered)
        moreover have "byte_map ps x = ZeroFill" using F2 by (intro byte_map_uncovered) blast
        ultimately show ?thesis using False by simp
      qed
    qed
  qed
  from res inv' bm show ?thesis by blast
qed

lemma find_append_case:
  "find P (xs @ ys) = (case find P xs of None \<Rightarrow> find P ys | Some x \<Rightarrow> Some x)"
  by (induction xs) auto

lemma byte_map_Nil: "byte_map [] x = ZeroFill"
  by (simp add: byte_map_def)

lemma add_parts_overlay:
  assumes ss: "sector_size \<noteq> 0"
  shows "\<forall>n\<in>set ns. valid_part fs sector_size n \<Longrightarrow> disjoint_extents acc \<Longrightarrow>
         slip_free fs sector_size acc ns \<Longrightarrow>
         \<exists>ps. add_parts fs sector_size acc ns = Inr ps \<and> disjoint_extents ps
            \<and> (\<forall>x. byte_map ps x
                   = (case find (covers x) (rev ns) of
                        None \<Rightarrow> byte_map acc x | Some p \<Rightarrow> src_at p x))"
proof (induction ns arbitrary: acc)
  case Nil
  then show ?case by simp
next
  case (Cons n ns)
  have v: "valid_part fs sector_size n" using Cons.prems(1) by simp
  have nslip: "\<forall>p\<in>set acc. \<not> slip_case n p" using Cons.prems(3) by (simp add: list_all_iff)
  from add_part_overlay [OF ss v Cons.prems(2) nslip] obtain acc'
    where a: "add_part fs sector_size n acc = Inr acc'" "disjoint_extents acc'"
      "\<forall>x. byte_map acc' x = (if covers x n then src_at n x else byte_map acc x)" by blast
  have sf: "slip_free fs sector_size acc' ns" using Cons.prems(3) a(1) by simp
  have vs: "\<forall>n\<in>set ns. valid_part fs sector_size n" using Cons.prems(1) by simp
  from Cons.IH [OF vs a(2) sf] obtain ps
    where ps: "add_parts fs sector_size acc' ns = Inr ps" "disjoint_extents ps"
      "\<forall>x. byte_map ps x
          = (case find (covers x) (rev ns) of None \<Rightarrow> byte_map acc' x | Some p \<Rightarrow> src_at p x)"
    by blast
  have "\<forall>x. byte_map ps x
      = (case find (covers x) (rev (n # ns)) of None \<Rightarrow> byte_map acc x | Some p \<Rightarrow> src_at p x)"
    using ps(3) a(3) by (auto simp: find_append_case split: option.splits)
  with ps(1,2) a(1) show ?case by simp
qed

lemma agree_src_at:
  "agree p q \<Longrightarrow> covers x p \<Longrightarrow> covers x q \<Longrightarrow> src_at p x = src_at q x"
  using overlapping_covers [of x p q]
  by (auto simp: agree_def src_at_def split: option.splits)

lemma byte_map_agree:
  assumes "\<forall>p\<in>set ps. \<forall>q\<in>set ps. agree p q" and "set qs = set ps"
  shows "byte_map qs x = byte_map ps x"
proof (cases "find (covers x) ps")
  case None
  then have "\<forall>p\<in>set ps. \<not> covers x p" by (simp add: find_None_iff)
  then have "find (covers x) qs = None" using assms(2) by (simp add: find_None_iff)
  with None show ?thesis by (simp add: byte_map_src_at)
next
  case (Some p)
  then have p: "p \<in> set ps" "covers x p" by (auto simp: find_Some_iff)
  then obtain q where q: "find (covers x) qs = Some q"
    using assms(2) by (cases "find (covers x) qs") (auto simp: find_None_iff)
  then have "q \<in> set ps" "covers x q" using assms(2) by (auto simp: find_Some_iff)
  then have "src_at q x = src_at p x" using agree_src_at assms(1) p by blast
  with Some q show ?thesis by (simp add: byte_map_src_at)
qed

text \<open>
  Claim C4 (inserting a sequence of valid extents in the given order and in the reverse
  order denotes the same byte map) fails on the code: a later extent replaces an earlier
  one where they overlap, so the order decides. Two extents of 512 bytes at target 0 from
  different files: the one added last is the one that stays.
\<close>

theorem add_parts_reverse_order_counterexample:
  "list_all (valid_part all_files 512)
     [\<lparr>source_file = Some ''img'', length_p = 512, source_offset = 0, target_offset = 0\<rparr>,
      \<lparr>source_file = Some ''plain'', length_p = 512, source_offset = 0, target_offset = 0\<rparr>]
   \<and> add_parts all_files 512 []
        [\<lparr>source_file = Some ''img'', length_p = 512, source_offset = 0, target_offset = 0\<rparr>,
         \<lparr>source_file = Some ''plain'', length_p = 512, source_offset = 0, target_offset = 0\<rparr>]
      = Inr [\<lparr>source_file = Some ''plain'', length_p = 512, source_offset = 0,
                target_offset = 0\<rparr>]
   \<and> add_parts all_files 512 []
        (rev [\<lparr>source_file = Some ''img'', length_p = 512, source_offset = 0, target_offset = 0\<rparr>,
              \<lparr>source_file = Some ''plain'', length_p = 512, source_offset = 0,
                 target_offset = 0\<rparr>])
      = Inr [\<lparr>source_file = Some ''img'', length_p = 512, source_offset = 0, target_offset = 0\<rparr>]
   \<and> byte_map [\<lparr>source_file = Some ''plain'', length_p = 512, source_offset = 0,
                  target_offset = 0\<rparr>] 0
      \<noteq> byte_map [\<lparr>source_file = Some ''img'', length_p = 512, source_offset = 0,
                     target_offset = 0\<rparr>] 0"
  by (simp add: add_part_def check_part_def is_file_def all_files_def valid_part_def
      byte_map_def covers_def target_end_def)

text \<open>
  Claim C4 as amended: take a finite sequence of valid extents (accepted source file,
  aligned, positive length) in which any two extents whose target ranges overlap name
  the same source bytes there (the same source file and the same distance between source
  and target offset), and whose insertion into a fresh builder, in the given order and
  in the reverse order, never meets the case the merge loop mishandles (the new extent
  covers the head of an extent already present, from its start on, but not its tail; see
  claims C1 and C2). Then both insertions succeed and the two extent lists denote the same
  byte map: the one that takes each target byte from the last extent of the sequence
  that holds it. Disjoint extents, an extent inside another one and an extent over the
  tail of another one are all covered.
\<close>

theorem add_parts_agreeing_order_independent:
  assumes "sector_size \<noteq> 0"
    and "list_all (valid_part fs sector_size) parts"
    and "list_all (\<lambda>p. list_all (agree p) parts) parts"
    and "slip_free fs sector_size [] parts"
    and "slip_free fs sector_size [] (rev parts)"
  shows "\<exists>ps qs. add_parts fs sector_size [] parts = Inr ps
           \<and> add_parts fs sector_size [] (rev parts) = Inr qs
           \<and> byte_map ps = byte_map qs
           \<and> byte_map ps = byte_map (rev parts)"
proof -
  have v: "\<forall>n\<in>set parts. valid_part fs sector_size n" using assms(2) by (simp add: list_all_iff)
  have vr: "\<forall>n\<in>set (rev parts). valid_part fs sector_size n" using v by simp
  have e: "disjoint_extents []" by (simp add: disjoint_extents_def pairwise_disjoint_def)
  have ag: "\<forall>p\<in>set parts. \<forall>q\<in>set parts. agree p q" using assms(3) by (simp add: list_all_iff)
  from add_parts_overlay [OF assms(1) v e assms(4)] obtain ps
    where ps0: "add_parts fs sector_size [] parts = Inr ps"
      "\<forall>x. byte_map ps x
          = (case find (covers x) (rev parts) of None \<Rightarrow> byte_map [] x | Some p \<Rightarrow> src_at p x)"
    by blast
  have ps: "add_parts fs sector_size [] parts = Inr ps"
      "\<forall>x. byte_map ps x = byte_map (rev parts) x"
    using ps0
    by (simp_all add: byte_map_Nil byte_map_src_at [of "rev parts"] cong: option.case_cong)
  from add_parts_overlay [OF assms(1) vr e assms(5)] obtain qs
    where qs0: "add_parts fs sector_size [] (rev parts) = Inr qs"
      "\<forall>x. byte_map qs x
          = (case find (covers x) (rev (rev parts)) of
               None \<Rightarrow> byte_map [] x | Some p \<Rightarrow> src_at p x)"
    by blast
  have qs: "add_parts fs sector_size [] (rev parts) = Inr qs"
      "\<forall>x. byte_map qs x = byte_map parts x"
    using qs0
    by (simp_all add: byte_map_Nil byte_map_src_at [of parts] cong: option.case_cong)
  have "\<forall>x. byte_map (rev parts) x = byte_map parts x"
    using byte_map_agree [OF ag, of "rev parts"] by simp
  then have "byte_map ps = byte_map qs" "byte_map ps = byte_map (rev parts)"
    using ps(2) qs(2) by (auto simp: fun_eq_iff)
  with ps(1) qs(1) show ?thesis by blast
qed

theorem add_parts_agreeing_order_independent_witness:
  "(512::int) \<noteq> 0
   \<and> list_all (valid_part all_files 512)
       [\<lparr>source_file = Some ''img'', length_p = 2048, source_offset = 0, target_offset = 0\<rparr>,
        \<lparr>source_file = Some ''img'', length_p = 512, source_offset = 512, target_offset = 512\<rparr>]
   \<and> list_all (\<lambda>p. list_all (agree p)
       [\<lparr>source_file = Some ''img'', length_p = 2048, source_offset = 0, target_offset = 0\<rparr>,
        \<lparr>source_file = Some ''img'', length_p = 512, source_offset = 512, target_offset = 512\<rparr>])
       [\<lparr>source_file = Some ''img'', length_p = 2048, source_offset = 0, target_offset = 0\<rparr>,
        \<lparr>source_file = Some ''img'', length_p = 512, source_offset = 512, target_offset = 512\<rparr>]
   \<and> slip_free all_files 512 []
       [\<lparr>source_file = Some ''img'', length_p = 2048, source_offset = 0, target_offset = 0\<rparr>,
        \<lparr>source_file = Some ''img'', length_p = 512, source_offset = 512, target_offset = 512\<rparr>]
   \<and> slip_free all_files 512 []
       (rev [\<lparr>source_file = Some ''img'', length_p = 2048, source_offset = 0, target_offset = 0\<rparr>,
             \<lparr>source_file = Some ''img'', length_p = 512, source_offset = 512,
                target_offset = 512\<rparr>])
   \<and> add_parts all_files 512 []
       [\<lparr>source_file = Some ''img'', length_p = 2048, source_offset = 0, target_offset = 0\<rparr>,
        \<lparr>source_file = Some ''img'', length_p = 512, source_offset = 512, target_offset = 512\<rparr>]
     = Inr [\<lparr>source_file = Some ''img'', length_p = 512, source_offset = 0, target_offset = 0\<rparr>,
            \<lparr>source_file = Some ''img'', length_p = 512, source_offset = 512,
               target_offset = 512\<rparr>,
            \<lparr>source_file = Some ''img'', length_p = 1024, source_offset = 1024,
               target_offset = 1024\<rparr>]
   \<and> add_parts all_files 512 []
       (rev [\<lparr>source_file = Some ''img'', length_p = 2048, source_offset = 0, target_offset = 0\<rparr>,
             \<lparr>source_file = Some ''img'', length_p = 512, source_offset = 512,
                target_offset = 512\<rparr>])
     = Inr [\<lparr>source_file = Some ''img'', length_p = 2048, source_offset = 0, target_offset = 0\<rparr>]
   \<and> byte_map
       [\<lparr>source_file = Some ''img'', length_p = 512, source_offset = 0, target_offset = 0\<rparr>,
        \<lparr>source_file = Some ''img'', length_p = 512, source_offset = 512, target_offset = 512\<rparr>,
        \<lparr>source_file = Some ''img'', length_p = 1024, source_offset = 1024,
           target_offset = 1024\<rparr>]
     = byte_map
       [\<lparr>source_file = Some ''img'', length_p = 2048, source_offset = 0, target_offset = 0\<rparr>]"
proof -
  let ?B = "\<lparr>source_file = Some ''img'', length_p = 2048, source_offset = 0, target_offset = 0\<rparr>"
  let ?A = "\<lparr>source_file = Some ''img'', length_p = 512, source_offset = 512,
              target_offset = 512\<rparr>"
  have h1: "(512::int) \<noteq> 0" by simp
  have h2: "list_all (valid_part all_files 512) [?B, ?A]"
    by (simp add: valid_part_def is_file_def all_files_def)
  have h3: "list_all (\<lambda>p. list_all (agree p) [?B, ?A]) [?B, ?A]"
    by (simp add: agree_def overlapping_def target_end_def)
  have f: "add_parts all_files 512 [] [?B, ?A]
     = Inr [\<lparr>source_file = Some ''img'', length_p = 512, source_offset = 0, target_offset = 0\<rparr>,
            ?A,
            \<lparr>source_file = Some ''img'', length_p = 1024, source_offset = 1024,
               target_offset = 1024\<rparr>]"
    by (simp add: add_part_def check_part_def is_file_def all_files_def)
  have r: "add_parts all_files 512 [] (rev [?B, ?A]) = Inr [?B]"
    by (simp add: add_part_def check_part_def is_file_def all_files_def)
  have h4: "slip_free all_files 512 [] [?B, ?A]"
    by (simp add: add_part_def check_part_def is_file_def all_files_def slip_case_def
        target_end_def)
  have h5: "slip_free all_files 512 [] (rev [?B, ?A])"
    by (simp add: add_part_def check_part_def is_file_def all_files_def slip_case_def
        target_end_def)
  from add_parts_agreeing_order_independent [OF h1 h2 h3 h4 h5] f r
  have "byte_map
       [\<lparr>source_file = Some ''img'', length_p = 512, source_offset = 0, target_offset = 0\<rparr>,
        ?A,
        \<lparr>source_file = Some ''img'', length_p = 1024, source_offset = 1024,
           target_offset = 1024\<rparr>]
     = byte_map [?B]"
    by simp
  with h1 h2 h3 h4 h5 f r show ?thesis by (intro conjI)
qed

section \<open>Properties of the plugin host\<close>

lemma dispatch_until_result_from_calls:
  "dispatch_until_result_from i ps name arg w = (r, w', calls) \<Longrightarrow>
     map call_index calls = [i..<i + length calls]
     \<and> length calls \<le> length ps
     \<and> list_all returned_falsy (butlast calls)
     \<and> (case r of
          Inl e \<Rightarrow> calls \<noteq> [] \<and> call_result (last calls) = Inl e
        | Inr v \<Rightarrow>
            if truthy v then calls \<noteq> [] \<and> call_result (last calls) = Inr v
            else v = PyNone \<and> length calls = length ps \<and> list_all returned_falsy calls)"
proof (induction ps arbitrary: i w r w' calls)
  case Nil
  then show ?case by auto
next
  case (Cons p ps)
  obtain x w1 where px: "p name arg w = (x, w1)" by (cases "p name arg w")
  show ?case
  proof (cases x)
    case (Inl e)
    with Cons.prems px show ?thesis by auto
  next
    case (Inr res)
    show ?thesis
    proof (cases "truthy res")
      case True
      with Cons.prems px Inr show ?thesis by auto
    next
      case False
      obtain r2 w2 calls2 where rec: "dispatch_until_result_from (Suc i) ps name arg w1 = (r2, w2, calls2)"
        by (cases "dispatch_until_result_from (Suc i) ps name arg w1")
      from Cons.prems px Inr False rec
      have eq: "r = r2" "w' = w2" "calls = Call i name arg (Inr res) # calls2" by auto
      note IH = Cons.IH [OF rec]
      have f: "returned_falsy (Call i name arg (Inr res))"
        using False by (simp add: returned_falsy_def)
      have "map call_index calls2 = [Suc i..<Suc i + length calls2]" using IH by blast
      then have "map call_index calls = i # [Suc i..<Suc (i + length calls2)]"
        using eq by simp
      also have "\<dots> = [i..<Suc (i + length calls2)]"
        by (rule upt_conv_Cons [symmetric]) simp
      finally have idx: "map call_index calls = [i..<i + length calls]"
        using eq by simp
      have len: "length calls \<le> length (p # ps)" using IH eq by simp
      have bl: "list_all returned_falsy (butlast calls)"
        using IH eq f by (cases calls2) auto
      have res: "(case r of
          Inl e \<Rightarrow> calls \<noteq> [] \<and> call_result (last calls) = Inl e
        | Inr v \<Rightarrow>
            if truthy v then calls \<noteq> [] \<and> call_result (last calls) = Inr v
            else v = PyNone \<and> length calls = length (p # ps) \<and> list_all returned_falsy calls)"
        using IH eq f by (auto split: sum.splits if_splits)
      from idx len bl res show ?thesis by blast
    qed
  qed
qed

text \<open>
  Claim C5 (\<open>dispatch_until_result\<close> returns the first result that is not null and calls
  no plugin after the one that produced it) fails on the code: the loop tests the truth
  value of the result, and an empty list of volumes, which \<open>LvmMountPlugin.mount\<close> returns
  for a volume group without logical volumes, is not null but false. The dispatcher goes
  on to the next plugin and returns that plugin's result.
\<close>

theorem dispatch_until_result_skips_empty_list:
  "dispatch_until_result
     \<lparr>plugins = [\<lambda>name arg w. (Inr (PyVolumes []), w)],
      fallback_plugins = [\<lambda>name arg w. (Inr (PyPath ''/mnt''), w)]\<rparr>
     mount (VolumeArg 0) ()
   = (Inr (PyPath ''/mnt''), (),
      [Call 0 mount (VolumeArg 0) (Inr (PyVolumes [])),
       Call 1 mount (VolumeArg 0) (Inr (PyPath ''/mnt''))])
   \<and> \<not> returned_null (Call 0 mount (VolumeArg 0) (Inr (PyVolumes [])))"
  by (simp add: dispatch_until_result_def all_plugins_def returned_null_def)

lemma dispatch_until_result_from_plugins:
  "dispatch_until_result_from i ps name arg w = (r, w', calls) \<Longrightarrow>
     calls_of_plugins ps name arg i w calls w'"
proof (induction ps arbitrary: i w r w' calls)
  case Nil
  then show ?case by simp
next
  case (Cons p ps)
  obtain x w1 where px: "p name arg w = (x, w1)" by (cases "p name arg w")
  show ?case
  proof (cases x)
    case (Inl e)
    with Cons.prems px show ?thesis by auto
  next
    case (Inr res)
    show ?thesis
    proof (cases "truthy res")
      case True
      with Cons.prems px Inr show ?thesis by auto
    next
      case False
      obtain r2 w2 calls2
        where rec: "dispatch_until_result_from (Suc i) ps name arg w1 = (r2, w2, calls2)"
        by (cases "dispatch_until_result_from (Suc i) ps name arg w1")
      from Cons.prems px Inr False rec
      have eq: "w' = w2" "calls = Call i name arg (Inr res) # calls2" by auto
      from Cons.IH [OF rec] eq px Inr show ?thesis by simp
    qed
  qed
qed

text \<open>
  Claim C5 as amended: \<open>dispatch_until_result\<close> calls the hook of the plugins of
  \<open>all_plugins\<close> in list order, from the first one on and without a gap, each on the world
  the call before it left, and records what each returned; every call but the last
  returned a false value (null or an empty list); a true result is the result of the last
  call, so it is the first true result in list order and no plugin is called after the
  one that produced it; and the result is false only if it is null, every plugin was
  called and every call returned a false value. A hook that raises ends the dispatch with
  its exception, again as the last call.
\<close>

theorem dispatch_until_result_first_truthy:
  "dispatch_until_result pm name arg w = (r, w', calls) \<Longrightarrow>
     calls_of_plugins (all_plugins pm) name arg 0 w calls w'
     \<and> map call_index calls = [0..<length calls]
     \<and> length calls \<le> length (all_plugins pm)
     \<and> list_all returned_falsy (butlast calls)
     \<and> (case r of
          Inl e \<Rightarrow> calls \<noteq> [] \<and> call_result (last calls) = Inl e
        | Inr v \<Rightarrow>
            if truthy v then calls \<noteq> [] \<and> call_result (last calls) = Inr v
            else v = PyNone \<and> length calls = length (all_plugins pm)
                 \<and> list_all returned_falsy calls)"
  unfolding dispatch_until_result_def
  using dispatch_until_result_from_calls [of 0 "all_plugins pm" name arg w r w' calls]
    dispatch_until_result_from_plugins [of 0 "all_plugins pm" name arg w r w' calls]
  by simp

theorem dispatch_until_result_first_truthy_witness:
  "dispatch_until_result
     \<lparr>plugins = [\<lambda>name arg w. (Inr PyNone, w + 1),
                 \<lambda>name arg w. (Inr (PyPath ''/mnt''), w + 10)],
      fallback_plugins = [\<lambda>name arg w. (Inr (PyPath ''/other''), w + 100)]\<rparr>
     mount (VolumeArg 0) (0::nat)
   = (Inr (PyPath ''/mnt''), 11,
      [Call 0 mount (VolumeArg 0) (Inr PyNone),
       Call 1 mount (VolumeArg 0) (Inr (PyPath ''/mnt''))])
   \<and> calls_of_plugins
        [\<lambda>name arg w. (Inr PyNone, w + 1),
         \<lambda>name arg w. (Inr (PyPath ''/mnt''), w + 10),
         \<lambda>name arg w. (Inr (PyPath ''/other''), w + 100)]
        mount (VolumeArg 0) 0 (0::nat)
        [Call 0 mount (VolumeArg 0) (Inr PyNone),
         Call 1 mount (VolumeArg 0) (Inr (PyPath ''/mnt''))] 11
   \<and> list_all returned_falsy (butlast
        [Call 0 mount (VolumeArg 0) (Inr PyNone),
         Call 1 mount (VolumeArg 0) (Inr (PyPath ''/mnt''))])
   \<and> call_result (last
        [Call 0 mount (VolumeArg 0) (Inr PyNone),
         Call 1 mount (VolumeArg 0) (Inr (PyPath ''/mnt''))]) = Inr (PyPath ''/mnt'')"
proof -
  have run: "dispatch_until_result
     \<lparr>plugins = [\<lambda>name arg w. (Inr PyNone, w + 1),
                 \<lambda>name arg w. (Inr (PyPath ''/mnt''), w + 10)],
      fallback_plugins = [\<lambda>name arg w. (Inr (PyPath ''/other''), w + 100)]\<rparr>
     mount (VolumeArg 0) (0::nat)
   = (Inr (PyPath ''/mnt''), 11,
      [Call 0 mount (VolumeArg 0) (Inr PyNone),
       Call 1 mount (VolumeArg 0) (Inr (PyPath ''/mnt''))])"
    by (simp add: dispatch_until_result_def all_plugins_def)
  from dispatch_until_result_first_truthy [OF run] run show ?thesis
    by (simp add: all_plugins_def)
qed

section \<open>Properties of the binary-structure helper\<close>

lemma from_le_range: "0 \<le> from_le bs \<and> from_le bs < 256 ^ length bs"
proof (induction bs)
  case Nil
  then show ?case by simp
next
  case (Cons b bs)
  have b: "0 \<le> uint b" "uint b < 256"
    using uint_bounded [of b] by simp_all
  from Cons.IH have "from_le bs + 1 \<le> 256 ^ length bs" by simp
  then have "256 * (from_le bs + 1) \<le> 256 * 256 ^ length bs" by simp
  with b Cons.IH show ?case by simp
qed

lemma to_le_from_le: "to_le (length bs) (from_le bs) = bs"
proof (induction bs)
  case Nil
  then show ?case by simp
next
  case (Cons b bs)
  have b: "0 \<le> uint b" "uint b < 256"
    using uint_bounded [of b] by simp_all
  have w: "(word_of_int (uint b + 256 * from_le bs) :: byte) = b"
  proof -
    have z: "(256 :: byte) = 0" by simp
    have "(word_of_int (uint b + 256 * from_le bs) :: byte)
            = word_of_int (uint b) + 256 * word_of_int (from_le bs)"
      by simp
    also have "\<dots> = b" by (simp only: z word_of_int_uint mult_zero_left add_0_right)
    finally show ?thesis .
  qed
  have d: "(uint b + 256 * from_le bs) div 256 = from_le bs"
    using b by simp
  show ?case using w d Cons.IH by simp
qed

lemma length_to_le: "length (to_le n v) = n"
  by (induction n arbitrary: v) simp_all

lemma int_to_from_bytes:
  "int_to_bytes e (length bs) (int_from_bytes e bs) = bs"
proof (cases e)
  case LITTLE
  then show ?thesis by (simp add: int_to_bytes_def int_from_bytes_def to_le_from_le)
next
  case BIG
  have "to_le (length (rev bs)) (from_le (rev bs)) = rev bs" by (rule to_le_from_le)
  then show ?thesis using BIG by (simp add: int_to_bytes_def int_from_bytes_def)
qed

lemma int_from_bytes_range:
  "0 \<le> int_from_bytes e bs \<and> int_from_bytes e bs < 256 ^ length bs"
  using from_le_range [of bs] from_le_range [of "rev bs"]
  by (cases e) (simp_all add: int_from_bytes_def)

lemma pack_unpack_one:
  "length bs = format_size c \<Longrightarrow> pack_one e c (unpack_one e c bs) = Inr bs"
  using int_from_bytes_range [of e bs] int_to_from_bytes [of e bs]
  by (cases c) auto

lemma pack_unpack_fields:
  "length data = calcsize cs \<Longrightarrow> pack_fields e cs (unpack_fields e cs data) = Inr data"
proof (induction cs arbitrary: data)
  case Nil
  then show ?case by (simp add: calcsize_def)
next
  case (Cons c cs)
  from Cons.prems have l1: "length (take (format_size c) data) = format_size c"
    and l2: "length (drop (format_size c) data) = calcsize cs"
    by (simp_all add: calcsize_def)
  show ?case
    using pack_unpack_one [OF l1, of e] Cons.IH [OF l2] by simp
qed

lemma structure_pack_unpack:
  "packed_size cls = Some (length x) \<Longrightarrow>
     \<exists>h. unpack cls x = Inr h \<and> pack cls h = Inr x"
  by (auto simp: packed_size_def unpack_def pack_def struct_unpack_def pack_unpack_fields
      split: sum.splits)

lemma VeraCryptHeader_packed_size: "packed_size VeraCryptHeader = Some 448"
  by (simp add: packed_size_def VeraCryptHeader_def calcsize_def)

text \<open>
  Claim C7: for every byte string \<open>x\<close> whose length is the packed size of
  \<open>VeraCryptHeader\<close> (448 bytes: the fields of the class add up to 448, not to the 512
  bytes of a sector), \<open>VeraCryptHeader.unpack(x)\<close> succeeds and packing the result gives
  \<open>x\<close> back.
\<close>

theorem veracrypt_header_pack_unpack:
  "packed_size VeraCryptHeader = Some (length x) \<Longrightarrow>
     \<exists>h. unpack VeraCryptHeader x = Inr h \<and> pack VeraCryptHeader h = Inr x"
  by (rule structure_pack_unpack)

theorem veracrypt_header_pack_unpack_witness:
  "packed_size VeraCryptHeader = Some (length (replicate 448 (0::byte)))
   \<and> (\<exists>h. unpack VeraCryptHeader (replicate 448 0) = Inr h
          \<and> pack VeraCryptHeader h = Inr (replicate 448 0))"
proof -
  have h: "packed_size VeraCryptHeader = Some (length (replicate 448 (0::byte)))"
    using VeraCryptHeader_packed_size by simp
  from veracrypt_header_pack_unpack [OF h] h show ?thesis by blast
qed

section \<open>Properties of the candidate master keys\<close>

lemma set_permutations2:
  "distinct pool \<Longrightarrow>
     set (permutations2 pool) = {(a, b). a \<in> set pool \<and> b \<in> set pool \<and> a \<noteq> b}"
proof (rule set_eqI)
  fix t :: "'a \<times> 'a"
  assume d: "distinct pool"
  obtain a b where t: "t = (a, b)" by (cases t)
  have "(a, b) \<in> set (permutations2 pool)
          \<longleftrightarrow> (\<exists>i<length pool. \<exists>j<length pool. j \<noteq> i \<and> a = pool ! i \<and> b = pool ! j)"
    by (auto simp: permutations2_def)
  also have "\<dots> \<longleftrightarrow> a \<in> set pool \<and> b \<in> set pool \<and> a \<noteq> b"
  proof
    assume "\<exists>i<length pool. \<exists>j<length pool. j \<noteq> i \<and> a = pool ! i \<and> b = pool ! j"
    then obtain i j where ij: "i < length pool" "j < length pool" "j \<noteq> i"
      "a = pool ! i" "b = pool ! j" by blast
    then have "a \<noteq> b" using d by (auto simp: nth_eq_iff_index_eq)
    then show "a \<in> set pool \<and> b \<in> set pool \<and> a \<noteq> b" using ij by simp
  next
    assume r: "a \<in> set pool \<and> b \<in> set pool \<and> a \<noteq> b"
    then obtain i j where "i < length pool" "pool ! i = a" "j < length pool" "pool ! j = b"
      by (auto simp: in_set_conv_nth)
    moreover from this r have "j \<noteq> i" by auto
    ultimately show "\<exists>i<length pool. \<exists>j<length pool. j \<noteq> i \<and> a = pool ! i \<and> b = pool ! j"
      by blast
  qed
  finally show "t \<in> set (permutations2 pool)
      \<longleftrightarrow> t \<in> {(a, b). a \<in> set pool \<and> b \<in> set pool \<and> a \<noteq> b}"
    using t by simp
qed

lemma set_xts_combinations:
  "distinct pool \<Longrightarrow>
     set (xts_combinations pool)
       = {k1 @ k2 | k1 k2. k1 \<in> set pool \<and> k2 \<in> set pool \<and> k1 \<noteq> k2 \<and> length k1 = length k2}"
proof -
  assume d: "distinct pool"
  have "set (xts_combinations pool)
          = (\<lambda>t. fst t @ snd t) `
              {t \<in> set (permutations2 pool). length (fst t) = length (snd t)}"
    by (simp add: xts_combinations_def)
  also have "\<dots> = {k1 @ k2 | k1 k2.
      k1 \<in> set pool \<and> k2 \<in> set pool \<and> k1 \<noteq> k2 \<and> length k1 = length k2}"
    unfolding set_permutations2 [OF d]
  proof (intro set_eqI iffI)
    fix k assume "k \<in> (\<lambda>t. fst t @ snd t) `
        {t \<in> {(a, b). a \<in> set pool \<and> b \<in> set pool \<and> a \<noteq> b}. length (fst t) = length (snd t)}"
    then obtain a b where "k = a @ b" "a \<in> set pool" "b \<in> set pool" "a \<noteq> b"
      "length a = length b" by auto
    then show "k \<in> {k1 @ k2 | k1 k2.
        k1 \<in> set pool \<and> k2 \<in> set pool \<and> k1 \<noteq> k2 \<and> length k1 = length k2}" by blast
  next
    fix k assume "k \<in> {k1 @ k2 | k1 k2.
        k1 \<in> set pool \<and> k2 \<in> set pool \<and> k1 \<noteq> k2 \<and> length k1 = length k2}"
    then obtain k1 k2 where k: "k = k1 @ k2" "k1 \<in> set pool" "k2 \<in> set pool" "k1 \<noteq> k2"
      "length k1 = length k2" by blast
    then have "(k1, k2) \<in> {t \<in> {(a, b). a \<in> set pool \<and> b \<in> set pool \<and> a \<noteq> b}.
        length (fst t) = length (snd t)}" by simp
    then show "k \<in> (\<lambda>t. fst t @ snd t) `
        {t \<in> {(a, b). a \<in> set pool \<and> b \<in> set pool \<and> a \<noteq> b}. length (fst t) = length (snd t)}"
      using k(1) by (metis (no_types, lifting) fst_conv image_eqI snd_conv)
  qed
  finally show ?thesis .
qed

lemma distinct_supplied_keys:
  "supplied_keys master_key master_keys_file = Inr pool \<Longrightarrow> distinct pool"
  by (auto simp: supplied_keys_def split: option.splits sum.splits)

text \<open>
  Claim C9 (with \<open>xts-combine-keys\<close> on, the candidates hold \<open>k1 + k2\<close> for every ordered
  pair of supplied keys of equal length, the pairs with \<open>k1 = k2\<close> included) fails on the
  code: \<open>itertools.permutations\<close> pairs elements at two different positions, and the keys
  are in a set, so a key is never paired with itself. With the one-byte key 01 as the
  only key, the candidates are that key alone; 01 01 is not among them.
\<close>

theorem master_keys_no_self_pair:
  "master_keys [[1]] None True = Inr {[1]} \<and> [1] @ [1] \<notin> {[1 :: byte]}"
  by (simp add: master_keys_def supplied_keys_def xts_combinations_def permutations2_def)

text \<open>
  Claim C9 as amended: with \<open>xts-combine-keys\<close> on, the candidate set is the set of the
  supplied keys (those of \<open>--master-key\<close> and of the keys file) together with the
  concatenation \<open>k1 + k2\<close> of every ordered pair of two different supplied keys of equal
  length, and nothing else.
\<close>

theorem master_keys_xts_distinct_pairs:
  "supplied_keys master_key master_keys_file = Inr pool \<Longrightarrow>
     master_keys master_key master_keys_file True
       = Inr (set pool \<union> {k1 @ k2 | k1 k2.
                k1 \<in> set pool \<and> k2 \<in> set pool \<and> k1 \<noteq> k2 \<and> length k1 = length k2})"
  using distinct_supplied_keys [of master_key master_keys_file pool]
  by (simp add: master_keys_def set_xts_combinations)

theorem master_keys_xts_distinct_pairs_witness:
  "supplied_keys [[1], [2]] (Some (str ''0a0b'')) = Inr [[1], [2], [10, 11]]
   \<and> master_keys [[1], [2]] (Some (str ''0a0b'')) True
       = Inr (set [[1], [2], [10, 11]] \<union> {k1 @ k2 | k1 k2.
                k1 \<in> set [[1], [2], [10, 11]] \<and> k2 \<in> set [[1], [2], [10, 11]]
                \<and> k1 \<noteq> k2 \<and> length k1 = length k2})"
proof -
  have h: "supplied_keys [[1], [2]] (Some (str ''0a0b'')) = Inr [[1], [2], [10, 11]]"
    by (simp add: supplied_keys_def str_def is_linebreak_def isspace_def digitvalue_def)
  from master_keys_xts_distinct_pairs [OF h] h show ?thesis by blast
qed

section \<open>Properties of the /etc/shadow reset\<close>

lemma split_not_Nil: "split sep s \<noteq> []"
  by (induction s) (auto split: list.splits)

lemma join_split: "join [sep] (split sep s) = s"
proof (induction s)
  case Nil
  then show ?case by simp
next
  case (Cons c cs)
  obtain l ls where sp: "split sep cs = l # ls"
    using split_not_Nil [of sep cs] by (cases "split sep cs") auto
  show ?case
  proof (cases "c = sep")
    case True
    then show ?thesis using Cons.IH sp by simp
  next
    case False
    then show ?thesis using Cons.IH sp by (cases ls) auto
  qed
qed

lemma override_entries_lines:
  "override_entries crypt hm (map (split 58) ls) r = (es, r') \<Longrightarrow>
     length es = length ls
     \<and> (\<forall>i<length ls. line_overridden crypt hm (ls ! i) (join (str '':'') (es ! i)))"
proof (induction ls arbitrary: r es r')
  case Nil
  then show ?case by simp
next
  case (Cons l ls)
  let ?e = "split 58 l"
  have colon: "str '':'' = [58]" by (simp add: str_def)
  show ?case
  proof (cases "length ?e \<ge> 2 \<and> ?e ! 1 \<notin> set [str ''!'', str ''*'']")
    case True
    obtain h r1 where hp: "hash_password crypt hm NEW_PASSWORD r = (h, r1)"
      by (cases "hash_password crypt hm NEW_PASSWORD r")
    obtain es1 r2 where rec: "override_entries crypt hm (map (split 58) ls) r1 = (es1, r2)"
      by (cases "override_entries crypt hm (map (split 58) ls) r1")
    from Cons.prems True hp rec have es: "es = ?e[1 := h] # es1" by auto
    have "\<exists>h' r1' r2'. crypt NEW_PASSWORD hm r1' = (h', r2')
            \<and> join (str '':'') (?e[1 := h]) = join (str '':'') (?e[1 := h'])"
      using hp unfolding hash_password_def by blast
    then have first: "line_overridden crypt hm l (join (str '':'') (?e[1 := h]))"
      using True by (simp add: line_overridden_def Let_def)
    note IH = Cons.IH [OF rec]
    have "\<forall>i<length (l # ls). line_overridden crypt hm ((l # ls) ! i) (join (str '':'') (es ! i))"
    proof (intro allI impI)
      fix i assume "i < length (l # ls)"
      then show "line_overridden crypt hm ((l # ls) ! i) (join (str '':'') (es ! i))"
        using first IH es by (cases i) auto
    qed
    then show ?thesis using IH es by simp
  next
    case False
    obtain es1 r2 where rec: "override_entries crypt hm (map (split 58) ls) r = (es1, r2)"
      by (cases "override_entries crypt hm (map (split 58) ls) r")
    from Cons.prems False rec have es: "es = ?e # es1" by auto
    have first: "line_overridden crypt hm l (join (str '':'') ?e)"
      using False by (auto simp: line_overridden_def colon join_split)
    note IH = Cons.IH [OF rec]
    have "\<forall>i<length (l # ls). line_overridden crypt hm ((l # ls) ! i) (join (str '':'') (es ! i))"
    proof (intro allI impI)
      fix i assume "i < length (l # ls)"
      then show "line_overridden crypt hm ((l # ls) ! i) (join (str '':'') (es ! i))"
        using first IH es by (cases i) auto
    qed
    then show ?thesis using IH es by simp
  qed
qed

text \<open>
  Claim C8 (the password field is replaced on exactly the lines whose password field is
  non-empty and neither \<open>!\<close> nor \<open>*\<close>) fails on the code: the guard is
  \<open>len(e) >= 2 and e[1] not in ['!', '*']\<close>, which an empty second field passes. The
  account \<open>root\<close> with an empty password field gets the new hash.
\<close>

theorem shadow_empty_password_field_replaced:
  "split 58 (str ''root::19000'') ! 1 = []
   \<and> fst (shadow_modify_filesystem (\<lambda>password method r. (str ''$5$salt$hash'', r))
            default_hash_method (Some (str ''root::19000'')) ())
       = Some (str ''root:$5$salt$hash:19000'')"
  by (simp add: shadow_modify_filesystem_def hash_password_def str_def is_linebreak_def
      NEW_PASSWORD_def)

text \<open>
  Claim C8 as amended: for every text of \<open>etc/shadow\<close>, the text written back is the
  lines of the old text joined by newlines, where a line with at least two
  colon-separated fields whose second field is neither \<open>!\<close> nor \<open>*\<close> (an empty second
  field included) has its second field replaced by a hash that \<open>crypt\<close> computed of the
  new password \<open>newpwd\<close> with the plugin's hash method (SHA-256 by default) and keeps
  its other fields, and every other line is unchanged.
\<close>

theorem shadow_modify_filesystem_overrides:
  "\<exists>lines. fst (shadow_modify_filesystem crypt hash_method (Some text) r)
              = Some (join (str ''\<newline>'') lines)
     \<and> length lines = length (splitlines text)
     \<and> (\<forall>i<length lines. line_overridden crypt hash_method (splitlines text ! i) (lines ! i))"
proof -
  obtain es r' where ov:
    "override_entries crypt hash_method (map (split 58) (splitlines text)) r = (es, r')"
    by (cases "override_entries crypt hash_method (map (split 58) (splitlines text)) r")
  note L = override_entries_lines [OF ov]
  let ?lines = "map (join (str '':'')) es"
  have "fst (shadow_modify_filesystem crypt hash_method (Some text) r)
          = Some (join (str ''\<newline>'') ?lines)"
    using ov by (simp add: shadow_modify_filesystem_def)
  moreover have "length ?lines = length (splitlines text)" using L by simp
  moreover have "\<forall>i<length ?lines.
      line_overridden crypt hash_method (splitlines text ! i) (?lines ! i)"
    using L by simp
  ultimately show ?thesis by blast
qed

theorem shadow_modify_filesystem_overrides_witness:
  "(\<exists>lines. fst (shadow_modify_filesystem (\<lambda>password method r. (str ''$5$salt$hash'', r))
                 default_hash_method (Some (str ''root:$6$old:1\<newline>bin:*:2'')) ())
              = Some (join (str ''\<newline>'') lines)
     \<and> length lines = length (splitlines (str ''root:$6$old:1\<newline>bin:*:2''))
     \<and> (\<forall>i<length lines.
           line_overridden (\<lambda>password method (r::unit). (str ''$5$salt$hash'', r))
             default_hash_method
             (splitlines (str ''root:$6$old:1\<newline>bin:*:2'') ! i) (lines ! i)))
   \<and> splitlines (str ''root:$6$old:1\<newline>bin:*:2'') = [str ''root:$6$old:1'', str ''bin:*:2'']
   \<and> fst (shadow_modify_filesystem (\<lambda>password method r. (str ''$5$salt$hash'', r))
            default_hash_method (Some (str ''root:$6$old:1\<newline>bin:*:2'')) ())
       = Some (str ''root:$5$salt$hash:1\<newline>bin:*:2'')"
proof -
  have a: "splitlines (str ''root:$6$old:1\<newline>bin:*:2'') = [str ''root:$6$old:1'', str ''bin:*:2'']"
    by (simp add: str_def is_linebreak_def)
  have b: "fst (shadow_modify_filesystem (\<lambda>password method r. (str ''$5$salt$hash'', r))
            default_hash_method (Some (str ''root:$6$old:1\<newline>bin:*:2'')) ())
       = Some (str ''root:$5$salt$hash:1\<newline>bin:*:2'')"
    by (simp add: shadow_modify_filesystem_def hash_password_def str_def is_linebreak_def
        NEW_PASSWORD_def)
  note c = shadow_modify_filesystem_overrides
    [of "\<lambda>password method r. (str ''$5$salt$hash'', r)" default_hash_method
        "str ''root:$6$old:1\<newline>bin:*:2''" "()"]
  show ?thesis by (rule conjI [OF c conjI [OF a b]])
qed

end
